theory Spec2Isabelle
  imports Complex_Main
begin

section \<open>Containers of the host language\<close>

text \<open>
  The collider system keeps its state in JavaScript \<open>Set\<close> and \<open>Map\<close> objects. Both
  iterate in insertion order, and several properties of the tracker depend on that order,
  so a \<open>Set\<close> is a list without repetitions (new members go to the end) and a \<open>Map\<close> is
  an association list with one entry per key (a new key goes to the end, an existing key
  keeps its place).
\<close>

definition jsset_add :: "'a \<Rightarrow> 'a list \<Rightarrow> 'a list" where
  "jsset_add x xs = (if x \<in> set xs then xs else xs @ [x])"

definition jsset_delete :: "'a \<Rightarrow> 'a list \<Rightarrow> 'a list" where
  "jsset_delete x xs = removeAll x xs"

fun jsmap_set :: "'k \<Rightarrow> 'v \<Rightarrow> ('k \<times> 'v) list \<Rightarrow> ('k \<times> 'v) list" where
  "jsmap_set k v [] = [(k, v)]"
| "jsmap_set k v ((k', v') # m) =
     (if k = k' then (k, v) # m else (k', v') # jsmap_set k v m)"

text \<open>\<open>Map.get\<close> is \<^const>\<open>map_of\<close>: \<open>None\<close> stands for \<open>undefined\<close>.\<close>

section \<open>Data model\<close>

type_synonym cid = nat
type_synonym eid = nat

datatype vec3 = Vector3 (vx: real) (vy: real) (vz: real)

text \<open>
  The part of a scene-graph node that the collider code reads: its visibility flag, its
  world position and world scale (what \<open>getWorldPosition\<close> and \<open>getWorldScale\<close> return)
  and its parent (\<open>None\<close> for \<open>null\<close>).
\<close>

datatype object3D =
  Object3D (visible: bool) (worldPosition: vec3) (worldScale: vec3) (parent: "object3D option")

record collider_data =
  collideNonVisible :: bool
  enabled :: bool
  shape :: string
  layer :: string
  collidesWith :: "string list"
  eventTarget :: "eid option"
  ignoreDuplicates :: bool
  policy :: string
  radius :: real
  width :: real
  height :: real
  depth :: real

text \<open>
  An entity: \<open>components\<close> is \<open>None\<close> when \<open>el.components\<close> is \<open>undefined\<close>; otherwise
  it maps an attribute name to the data of the behaviour attached under that name.
\<close>

record entity =
  ident :: eid
  components :: "(string \<rightharpoonup> collider_data) option"
  isPlaying :: bool
  object3D :: object3D

record collider =
  el :: entity
  attrName :: string
  data :: collider_data

text \<open>
  Collider objects are compared by identity (\<open>c1 !== c2\<close>) and are mutated by the host
  between ticks, so the registry and the collision graphs hold references (\<^typ>\<open>cid\<close>)
  and a \<open>world\<close> gives what each reference points to when a tick runs.
\<close>

type_synonym world = "cid \<Rightarrow> collider"

type_synonym graph = "(cid \<times> cid list) list"

datatype detail = PartnerEl eid | BothEls eid eid string string

record event =
  ev_name :: string
  ev_c1 :: cid
  ev_c2 :: cid
  ev_target :: eid
  ev_detail :: detail
  ev_bubbles :: bool

text \<open>
  The state of the system object created by \<open>init\<close>, together with the list of the
  events handed to the host's \<open>emit\<close> so far. An entry of \<open>emitted\<close> also names the
  two colliders \<open>emitEvent\<close> was called with.
\<close>

record system =
  collisions :: graph
  prevCollisions :: graph
  newCollisions :: graph
  colliders :: "cid list"
  layers :: "(string \<times> cid list) list"
  emitted :: "event list"

definition init :: system where
  "init = \<lparr> collisions = [], prevCollisions = [], newCollisions = [],
            colliders = [], layers = [], emitted = [] \<rparr>"

datatype error = InvalidShapes string string | TypeError

text \<open>
  A call either returns or throws; in both cases the mutations made so far stay, so both
  outcomes carry the state.
\<close>

datatype result = Ok system | Threw error system

fun state_of :: "result \<Rightarrow> system" where
  "state_of (Ok s) = s"
| "state_of (Threw e s) = s"

fun bind :: "result \<Rightarrow> (system \<Rightarrow> result) \<Rightarrow> result" where
  "bind (Ok s) f = f s"
| "bind (Threw e s) f = Threw e s"

section \<open>Collider registry\<close>

definition addCollider :: "cid \<Rightarrow> string \<Rightarrow> system \<Rightarrow> system" where
  "addCollider c l s =
     (let ls = (if map_of (layers s) l = None then jsmap_set l [] (layers s) else layers s)
      in case map_of ls l of
           None \<Rightarrow> s
         | Some bucket \<Rightarrow>
             s\<lparr> layers := jsmap_set l (jsset_add c bucket) ls,
                colliders := jsset_add c (colliders s) \<rparr>)"

text \<open>
  \<open>removeCollider\<close> calls \<open>delete\<close> on \<open>this.layers.get(layer)\<close> without testing the
  lookup: for a layer without a bucket the receiver is \<open>undefined\<close> and the call throws
  before anything is changed.
\<close>

definition removeCollider :: "cid \<Rightarrow> string \<Rightarrow> system \<Rightarrow> result" where
  "removeCollider c l s =
     (case map_of (layers s) l of
        None \<Rightarrow> Threw TypeError s
      | Some bucket \<Rightarrow>
          Ok (s\<lparr> layers := jsmap_set l (jsset_delete c bucket) (layers s),
                 colliders := jsset_delete c (colliders s) \<rparr>))"

section \<open>Scene-graph queries and shape tests\<close>

text \<open>
  \<open>isVisibleInScene\<close> walks from the entity's node to the root and stops at the first
  node that is not visible.
\<close>

fun isVisibleInScene_loop :: "object3D \<Rightarrow> bool" where
  "isVisibleInScene_loop (Object3D v p sc None) = (if \<not> v then False else True)"
| "isVisibleInScene_loop (Object3D v p sc (Some up)) =
     (if \<not> v then False else isVisibleInScene_loop up)"

definition isVisibleInScene :: "entity \<Rightarrow> bool" where
  "isVisibleInScene e = isVisibleInScene_loop (object3D e)"

text \<open>
  The vector, box and sphere operations of the host's geometry library that the shape
  tests call. The source computes in IEEE doubles; here numbers are reals, which leaves
  the rounding of the double operations out. No statement below is about that
  arithmetic: the theorems take the result of a shape test as it comes, and the example
  scenes use values at which the double operations are exact.
\<close>

definition distanceToSquared :: "vec3 \<Rightarrow> vec3 \<Rightarrow> real" where
  "distanceToSquared a b = (vx a - vx b)\<^sup>2 + (vy a - vy b)\<^sup>2 + (vz a - vz b)\<^sup>2"

definition distanceTo :: "vec3 \<Rightarrow> vec3 \<Rightarrow> real" where
  "distanceTo a b = sqrt (distanceToSquared a b)"

datatype box3 = Box3 (bmin: vec3) (bmax: vec3)

datatype sphere = Sphere (center: vec3) (sradius: real)

definition setFromCenterAndSize :: "vec3 \<Rightarrow> vec3 \<Rightarrow> box3" where
  "setFromCenterAndSize c sz =
     Box3 (Vector3 (vx c - vx sz * (1/2)) (vy c - vy sz * (1/2)) (vz c - vz sz * (1/2)))
          (Vector3 (vx c + vx sz * (1/2)) (vy c + vy sz * (1/2)) (vz c + vz sz * (1/2)))"

definition clampPoint :: "box3 \<Rightarrow> vec3 \<Rightarrow> vec3" where
  "clampPoint b p =
     Vector3 (max (vx (bmin b)) (min (vx (bmax b)) (vx p)))
             (max (vy (bmin b)) (min (vy (bmax b)) (vy p)))
             (max (vz (bmin b)) (min (vz (bmax b)) (vz p)))"

definition intersectsSphere :: "box3 \<Rightarrow> sphere \<Rightarrow> bool" where
  "intersectsSphere b s =
     (distanceToSquared (clampPoint b (center s)) (center s) \<le> sradius s * sradius s)"

definition intersectsBox :: "box3 \<Rightarrow> box3 \<Rightarrow> bool" where
  "intersectsBox a b =
     (if vx (bmax b) < vx (bmin a) \<or> vx (bmin b) > vx (bmax a) \<or>
         vy (bmax b) < vy (bmin a) \<or> vy (bmin b) > vy (bmax a) \<or>
         vz (bmax b) < vz (bmin a) \<or> vz (bmin b) > vz (bmax a)
      then False else True)"

definition getScaledRadius :: "collider \<Rightarrow> real" where
  "getScaledRadius c =
     (let sc = worldScale (object3D (el c))
      in max (vx sc) (max (vy sc) (vz sc)) * radius (data c))"

definition getScaledDimensions :: "collider \<Rightarrow> vec3" where
  "getScaledDimensions c =
     (let sc = worldScale (object3D (el c))
      in Vector3 (width (data c) * vx sc) (height (data c) * vy sc) (depth (data c) * vz sc))"

definition collision_sphere_sphere :: "collider \<Rightarrow> collider \<Rightarrow> bool" where
  "collision_sphere_sphere sphere1 sphere2 =
     (let s1Pos = worldPosition (object3D (el sphere1));
          s2Pos = worldPosition (object3D (el sphere2));
          distance = distanceTo s1Pos s2Pos;
          combinedRadius = getScaledRadius sphere1 + getScaledRadius sphere2
      in distance \<le> combinedRadius)"

definition collision_sphere_box :: "collider \<Rightarrow> collider \<Rightarrow> bool" where
  "collision_sphere_box sph box =
     (let s = Sphere (worldPosition (object3D (el sph))) (getScaledRadius sph);
          b = setFromCenterAndSize (worldPosition (object3D (el box))) (getScaledDimensions box)
      in intersectsSphere b s)"

definition collision_box_sphere :: "collider \<Rightarrow> collider \<Rightarrow> bool" where
  "collision_box_sphere c1 c2 = collision_sphere_box c2 c1"

definition collision_box_box :: "collider \<Rightarrow> collider \<Rightarrow> bool" where
  "collision_box_box box1 box2 =
     (let b1 = setFromCenterAndSize (worldPosition (object3D (el box1))) (getScaledDimensions box1);
          b2 = setFromCenterAndSize (worldPosition (object3D (el box2))) (getScaledDimensions box2)
      in intersectsBox b1 b2)"

text \<open>
  The shape test is found by name: \<open>this[methName]\<close> with the name built from the two
  shape strings. The system object has four properties whose names start with
  \<open>collision_\<close>; every other name gives \<open>undefined\<close>.
\<close>

definition methName :: "collider \<Rightarrow> collider \<Rightarrow> string" where
  "methName c1 c2 = ''collision_'' @ shape (data c1) @ ''_'' @ shape (data c2)"

definition system_method :: "string \<Rightarrow> (collider \<Rightarrow> collider \<Rightarrow> bool) option" where
  "system_method n =
     (if n = ''collision_sphere_sphere'' then Some collision_sphere_sphere
      else if n = ''collision_box_sphere'' then Some collision_box_sphere
      else if n = ''collision_sphere_box'' then Some collision_sphere_box
      else if n = ''collision_box_box'' then Some collision_box_box
      else None)"

section \<open>Collision tracker\<close>

definition hasCollided :: "cid \<Rightarrow> cid \<Rightarrow> graph \<Rightarrow> bool" where
  "hasCollided c other list =
     (case map_of list c of None \<Rightarrow> False | Some cols \<Rightarrow> other \<in> set cols)"

text \<open>
  \<open>addCollision\<close> declares a third parameter \<open>list\<close> but its body never reads it: it
  tests and updates \<open>this.collisions\<close> whatever the caller passes.
\<close>

definition addCollision :: "world \<Rightarrow> cid \<Rightarrow> cid \<Rightarrow> system \<Rightarrow> system" where
  "addCollision w c1 c2 s =
     (if ignoreDuplicates (data (w c1)) \<and> hasCollided c2 c1 (collisions s) then s
      else case map_of (collisions s) c1 of
             None \<Rightarrow> s\<lparr> collisions := jsmap_set c1 (jsset_add c2 []) (jsmap_set c1 [] (collisions s)) \<rparr>
           | Some cols \<Rightarrow> s\<lparr> collisions := jsmap_set c1 (jsset_add c2 cols) (collisions s) \<rparr>)"

definition no_component :: "entity \<Rightarrow> string \<Rightarrow> bool" where
  "no_component e a = (case components e of None \<Rightarrow> True | Some cs \<Rightarrow> cs a = None)"

definition addAnyCollisions :: "world \<Rightarrow> cid \<Rightarrow> cid \<Rightarrow> system \<Rightarrow> result" where
  "addAnyCollisions w c1 c2 s =
     (let el1 = el (w c1); el2 = el (w c2) in
      if no_component el1 (attrName (w c1)) \<or> \<not> enabled (data (w c1)) \<or>
         no_component el2 (attrName (w c2)) \<or> \<not> enabled (data (w c2))
      then Ok s
      else if \<not> isPlaying el1 \<or> \<not> isPlaying el2 then Ok s
      else if \<not> collideNonVisible (data (w c1)) \<and>
              (\<not> isVisibleInScene el2 \<or> \<not> isVisibleInScene el1)
      then Ok s
      else case system_method (methName (w c1) (w c2)) of
             None \<Rightarrow> Threw (InvalidShapes (shape (data (w c1))) (shape (data (w c2)))) s
           | Some test \<Rightarrow> if test (w c1) (w c2) then Ok (addCollision w c1 c2 s) else Ok s)"

text \<open>
  \<open>emitEvent\<close> reads the data of the behaviour attached to the first entity under the
  first collider's attribute name, and throws when it is not there. With an event target
  it also reads the second entity's behaviour.
\<close>

definition emitEvent :: "world \<Rightarrow> string \<Rightarrow> cid \<Rightarrow> cid \<Rightarrow> system \<Rightarrow> result" where
  "emitEvent w name c1 c2 s =
     (let e = el (w c1); elWith = el (w c2) in
      case components e of
        None \<Rightarrow> Threw TypeError s
      | Some cs1 \<Rightarrow>
         (case cs1 (attrName (w c1)) of
            None \<Rightarrow> Threw TypeError s
          | Some d1 \<Rightarrow>
             (case eventTarget d1 of
                None \<Rightarrow>
                  Ok (s\<lparr> emitted := emitted s @
                        [\<lparr> ev_name = name, ev_c1 = c1, ev_c2 = c2, ev_target = ident e,
                           ev_detail = PartnerEl (ident elWith), ev_bubbles = True \<rparr>] \<rparr>)
              | Some elTarget \<Rightarrow>
                 (case components elWith of
                    None \<Rightarrow> Threw TypeError s
                  | Some cs2 \<Rightarrow>
                     (case cs2 (attrName (w c2)) of
                        None \<Rightarrow> Threw TypeError s
                      | Some d2 \<Rightarrow>
                          Ok (s\<lparr> emitted := emitted s @
                                [\<lparr> ev_name = name, ev_c1 = c1, ev_c2 = c2, ev_target = elTarget,
                                   ev_detail = BothEls (ident e) (ident elWith) (layer d1) (layer d2),
                                   ev_bubbles = False \<rparr>] \<rparr>))))))"

text \<open>The three nested loops of \<open>tick\<close> that build the current graph.\<close>

fun tick_bucket :: "world \<Rightarrow> cid \<Rightarrow> cid list \<Rightarrow> system \<Rightarrow> result" where
  "tick_bucket w c1 [] s = Ok s"
| "tick_bucket w c1 (c2 # rest) s =
     (if c1 \<noteq> c2 then bind (addAnyCollisions w c1 c2 s) (tick_bucket w c1 rest)
      else tick_bucket w c1 rest s)"

fun tick_layers :: "world \<Rightarrow> cid \<Rightarrow> string list \<Rightarrow> system \<Rightarrow> result" where
  "tick_layers w c1 [] s = Ok s"
| "tick_layers w c1 (l # rest) s =
     (case map_of (layers s) l of
        None \<Rightarrow> tick_layers w c1 rest s
      | Some bucket \<Rightarrow> bind (tick_bucket w c1 bucket s) (tick_layers w c1 rest))"

fun tick_colliders :: "world \<Rightarrow> cid list \<Rightarrow> system \<Rightarrow> result" where
  "tick_colliders w [] s = Ok s"
| "tick_colliders w (c1 # rest) s =
     bind (tick_layers w c1 (collidesWith (data (w c1))) s) (tick_colliders w rest)"

text \<open>
  The start pass walks the current graph and the end pass the previous one. The start
  pass calls \<open>addCollision\<close> on an edge that the graph it walks already holds, which
  leaves the graph as it is (lemma \<open>addCollision_present\<close>), so walking the graph as it
  was when the pass began is walking the live \<open>Map\<close>.
\<close>

fun start_cols :: "world \<Rightarrow> cid \<Rightarrow> cid list \<Rightarrow> system \<Rightarrow> result" where
  "start_cols w c1 [] s = Ok s"
| "start_cols w c1 (c2 # rest) s =
     (if \<not> hasCollided c1 c2 (prevCollisions s)
      then bind (emitEvent w ''collisionstart'' c1 c2 (addCollision w c1 c2 s)) (start_cols w c1 rest)
      else start_cols w c1 rest s)"

fun start_pass :: "world \<Rightarrow> graph \<Rightarrow> system \<Rightarrow> result" where
  "start_pass w [] s = Ok s"
| "start_pass w ((c1, cols) # rest) s = bind (start_cols w c1 cols s) (start_pass w rest)"

fun end_cols :: "world \<Rightarrow> cid \<Rightarrow> cid list \<Rightarrow> system \<Rightarrow> result" where
  "end_cols w c1 [] s = Ok s"
| "end_cols w c1 (c2 # rest) s =
     (if \<not> hasCollided c1 c2 (collisions s)
      then bind (emitEvent w ''collisionend'' c1 c2 s) (end_cols w c1 rest)
      else end_cols w c1 rest s)"

fun end_pass :: "world \<Rightarrow> graph \<Rightarrow> system \<Rightarrow> result" where
  "end_pass w [] s = Ok s"
| "end_pass w ((c1, cols) # rest) s = bind (end_cols w c1 cols s) (end_pass w rest)"

text \<open>
  \<open>tick\<close> empties the old previous graph and swaps the two buffers, so the graph of the
  last tick becomes \<open>prevCollisions\<close> and the emptied one is built anew.
\<close>

definition swap_buffers :: "system \<Rightarrow> system" where
  "swap_buffers s = s\<lparr> prevCollisions := collisions s, collisions := [] \<rparr>"

definition build :: "world \<Rightarrow> system \<Rightarrow> result" where
  "build w s = tick_colliders w (colliders s) s"

definition tick :: "world \<Rightarrow> system \<Rightarrow> result" where
  "tick w s =
     bind (build w (swap_buffers s))
       (\<lambda>s1. let s2 = s1\<lparr> newCollisions := [] \<rparr>
             in bind (start_pass w (collisions s2) s2)
                  (\<lambda>s3. end_pass w (prevCollisions s3) s3))"

section \<open>Sequences of registry calls\<close>

datatype registry_op = Add cid string | Remove cid string

fun apply_op :: "registry_op \<Rightarrow> system \<Rightarrow> system" where
  "apply_op (Add c l) s = addCollider c l s"
| "apply_op (Remove c l) s = state_of (removeCollider c l s)"

fun apply_ops :: "registry_op list \<Rightarrow> system \<Rightarrow> system" where
  "apply_ops [] s = s"
| "apply_ops (x # xs) s = apply_ops xs (apply_op x s)"

definition in_bucket :: "cid \<Rightarrow> system \<Rightarrow> bool" where
  "in_bucket c s = (\<exists>b \<in> set (layers s). c \<in> set (snd b))"

definition in_flat :: "cid \<Rightarrow> system \<Rightarrow> bool" where
  "in_flat c s = (c \<in> set (colliders s))"

text \<open>
  A sequence of calls in which every \<open>removeCollider(c, l)\<close> finds \<open>c\<close> in no bucket
  other than that of \<open>l\<close>: the way the collider behaviour uses the registry, which
  registers a collider under its one \<open>layer\<close>.
\<close>

fun one_layer_removes :: "registry_op list \<Rightarrow> system \<Rightarrow> bool" where
  "one_layer_removes [] s = True"
| "one_layer_removes (Add c l # ops) s = one_layer_removes ops (addCollider c l s)"
| "one_layer_removes (Remove c l # ops) s =
     (list_all (\<lambda>b. c \<in> set (snd b) \<longrightarrow> fst b = l) (layers s) \<and>
      one_layer_removes ops (state_of (removeCollider c l s)))"

definition flat_in_bucket :: "system \<Rightarrow> bool" where
  "flat_in_bucket s = (\<forall>c. in_flat c s \<longrightarrow> in_bucket c s)"

definition bucket_in_flat :: "system \<Rightarrow> bool" where
  "bucket_in_flat s = (distinct (map fst (layers s)) \<and> (\<forall>c. in_bucket c s \<longrightarrow> in_flat c s))"

section \<open>Derived notions used to state the properties\<close>

text \<open>
  The candidate pairs of a tick, in the order in which the three nested loops reach them,
  and the evaluation of a list of pairs one after the other. Lemma \<open>build_add_pairs\<close>
  shows that the loops of \<open>tick\<close> do exactly this.
\<close>

definition bucket_pairs :: "cid \<Rightarrow> cid list \<Rightarrow> (cid \<times> cid) list" where
  "bucket_pairs c1 bucket = map (Pair c1) (filter (\<lambda>c2. c1 \<noteq> c2) bucket)"

definition layer_pairs :: "(string \<times> cid list) list \<Rightarrow> cid \<Rightarrow> string list \<Rightarrow> (cid \<times> cid) list" where
  "layer_pairs ls c1 names =
     concat (map (\<lambda>l. case map_of ls l of None \<Rightarrow> [] | Some bucket \<Rightarrow> bucket_pairs c1 bucket) names)"

definition turn_pairs :: "world \<Rightarrow> (string \<times> cid list) list \<Rightarrow> cid \<Rightarrow> (cid \<times> cid) list" where
  "turn_pairs w ls c1 = layer_pairs ls c1 (collidesWith (data (w c1)))"

definition candidates :: "world \<Rightarrow> system \<Rightarrow> (cid \<times> cid) list" where
  "candidates w s = concat (map (turn_pairs w (layers s)) (colliders s))"

fun add_pairs :: "world \<Rightarrow> (cid \<times> cid) list \<Rightarrow> system \<Rightarrow> result" where
  "add_pairs w [] s = Ok s"
| "add_pairs w (p # ps) s = bind (addAnyCollisions w (fst p) (snd p) s) (add_pairs w ps)"

text \<open>The edges of a graph in iteration order, and the representation invariant of a
  \<open>Map\<close> of \<open>Set\<close>s: one entry per key, no member twice.\<close>

definition cols_of :: "graph \<Rightarrow> cid \<Rightarrow> cid list" where
  "cols_of g c = (case map_of g c of None \<Rightarrow> [] | Some cols \<Rightarrow> cols)"

definition edges :: "graph \<Rightarrow> (cid \<times> cid) list" where
  "edges g = concat (map (\<lambda>p. map (Pair (fst p)) (snd p)) g)"

definition graph_ok :: "graph \<Rightarrow> bool" where
  "graph_ok g = (distinct (map fst g) \<and> list_all (\<lambda>p. distinct (snd p)) g)"

text \<open>The events emitted between two states, and how many of them are the event
  \<open>name\<close> of the pair \<open>(a, b)\<close>.\<close>

definition tick_events :: "system \<Rightarrow> system \<Rightarrow> event list" where
  "tick_events s s' = drop (length (emitted s)) (emitted s')"

definition count_events :: "string \<Rightarrow> cid \<Rightarrow> cid \<Rightarrow> event list \<Rightarrow> nat" where
  "count_events name a b evs =
     length (filter (\<lambda>e. ev_name e = name \<and> ev_c1 e = a \<and> ev_c2 e = b) evs)"

text \<open>The three conditions under which \<open>addAnyCollisions\<close> returns before the shape
  test, as the code tests them.\<close>

definition inactive :: "world \<Rightarrow> cid \<Rightarrow> cid \<Rightarrow> bool" where
  "inactive w c1 c2 =
     (no_component (el (w c1)) (attrName (w c1)) \<or> \<not> enabled (data (w c1)) \<or>
      no_component (el (w c2)) (attrName (w c2)) \<or> \<not> enabled (data (w c2)))"

definition not_playing :: "world \<Rightarrow> cid \<Rightarrow> cid \<Rightarrow> bool" where
  "not_playing w c1 c2 = (\<not> isPlaying (el (w c1)) \<or> \<not> isPlaying (el (w c2)))"

definition not_visible :: "world \<Rightarrow> cid \<Rightarrow> cid \<Rightarrow> bool" where
  "not_visible w c1 c2 =
     (\<not> collideNonVisible (data (w c1)) \<and>
      (\<not> isVisibleInScene (el (w c2)) \<or> \<not> isVisibleInScene (el (w c1))))"

text \<open>A pair gets past the three tests and its shape test exists and returns true.\<close>

definition passes :: "world \<Rightarrow> cid \<Rightarrow> cid \<Rightarrow> bool" where
  "passes w c1 c2 =
     (\<not> inactive w c1 c2 \<and> \<not> not_playing w c1 c2 \<and> \<not> not_visible w c1 c2 \<and>
      (case system_method (methName (w c1) (w c2)) of
         None \<Rightarrow> False
       | Some test \<Rightarrow> test (w c1) (w c2)))"

text \<open>The name and the two colliders of an emitted event.\<close>

definition call_of :: "event \<Rightarrow> string \<times> cid \<times> cid" where
  "call_of e = (ev_name e, ev_c1 e, ev_c2 e)"

definition start_edges :: "graph \<Rightarrow> graph \<Rightarrow> (cid \<times> cid) list" where
  "start_edges cur prev = filter (\<lambda>p. \<not> hasCollided (fst p) (snd p) prev) (edges cur)"

definition end_edges :: "graph \<Rightarrow> graph \<Rightarrow> (cid \<times> cid) list" where
  "end_edges prev cur = filter (\<lambda>p. \<not> hasCollided (fst p) (snd p) cur) (edges prev)"

section \<open>An example scene\<close>

definition sphere_data :: collider_data where
  "sphere_data =
     \<lparr> collideNonVisible = False, enabled = True, shape = ''sphere'', layer = ''default'',
       collidesWith = [''default''], eventTarget = None, ignoreDuplicates = False,
       policy = ''init'', radius = 1, width = 1, height = 1, depth = 1 \<rparr>"

definition node :: "bool \<Rightarrow> real \<Rightarrow> object3D" where
  "node v x = Object3D v (Vector3 x 0 0) (Vector3 1 1 1) None"

definition mk_collider :: "eid \<Rightarrow> collider_data \<Rightarrow> object3D \<Rightarrow> collider" where
  "mk_collider i d ob =
     \<lparr> el = \<lparr> ident = i, components = Some [''collider'' \<mapsto> d], isPlaying = True,
              object3D = ob \<rparr>,
       attrName = ''collider'', data = d \<rparr>"

definition drift :: "real \<Rightarrow> world" where
  "drift x = (\<lambda>c. if c = 0 then mk_collider 0 sphere_data (node True 0)
                    else mk_collider c sphere_data (node True x))"

definition two_registered :: system where
  "two_registered = apply_ops [Add 0 ''default'', Add 1 ''default''] init"

definition dup_world :: world where
  "dup_world = (\<lambda>c. mk_collider c (sphere_data\<lparr> ignoreDuplicates := True \<rparr>) (node True 0))"

text \<open>Collider \<open>1\<close> registered before collider \<open>0\<close>, and the same registry after
  one tick and a pause and resume of collider \<open>1\<close>, which puts it behind \<open>0\<close>.\<close>

definition one_then_zero :: system where
  "one_then_zero = apply_ops [Add 1 ''default'', Add 0 ''default''] init"

definition halted :: world where
  "halted = (\<lambda>c. if c = 0
      then \<lparr> el = \<lparr> ident = 0, components = Some [''collider'' \<mapsto> sphere_data\<lparr> enabled := False \<rparr>],
                     isPlaying = False, object3D = node False 0 \<rparr>,
             attrName = ''collider'', data = sphere_data\<lparr> enabled := False \<rparr> \<rparr>
      else mk_collider c sphere_data (node True 1))"

definition box_data :: collider_data where
  "box_data = sphere_data\<lparr> shape := ''box'' \<rparr>"

text \<open>A node that is visible itself under a parent that is not.\<close>

definition under_hidden :: "real \<Rightarrow> object3D" where
  "under_hidden x = Object3D True (Vector3 x 0 0) (Vector3 1 1 1) (Some (node False 0))"

text \<open>Collider \<open>0\<close> does not require visibility; collider \<open>1\<close> does and sits under a
  hidden parent.\<close>

definition see_through :: world where
  "see_through = (\<lambda>c. if c = 0
      then mk_collider 0 (sphere_data\<lparr> collideNonVisible := True \<rparr>) (node True 0)
      else mk_collider c sphere_data (under_hidden 0))"

text \<open>Both colliders require visibility; collider \<open>1\<close> sits under a hidden parent.\<close>

definition hide_one :: world where
  "hide_one = (\<lambda>c. if c = 0 then mk_collider 0 sphere_data (node True 0)
                       else mk_collider c sphere_data (under_hidden 1))"

text \<open>Collider \<open>1\<close> carries a shape string for which the system has no test.\<close>

definition odd_shape :: world where
  "odd_shape = (\<lambda>c. if c = 0 then mk_collider 0 sphere_data (node True 0)
                        else mk_collider c (sphere_data\<lparr> shape := ''cylinder'' \<rparr>) (node True 1))"

text \<open>The scene of \<open>drift 1\<close> after the behaviour of collider \<open>0\<close> has been detached
  from its entity: the entity has components, but none under the attribute name.\<close>

definition detached :: world where
  "detached = (\<lambda>c. if c = 0
      then \<lparr> el = \<lparr> ident = 0, components = Some Map.empty, isPlaying = True,
                     object3D = node True 0 \<rparr>,
             attrName = ''collider'', data = sphere_data \<rparr>
      else mk_collider c sphere_data (node True 1))"

text \<open>
  A history of the system: ticks, each in the world of its moment and each either
  completed or aborted by a throw, and registry calls between them.
\<close>

datatype step = Tick world | Call registry_op



fun ticks :: "world list \<Rightarrow> system \<Rightarrow> system" where
  "ticks [] s = s"
| "ticks (w # ws) s = ticks ws (state_of (tick w s))"

section \<open>Container lemmas\<close>

lemma map_of_jsmap_set: "map_of (jsmap_set k v m) = (map_of m)(k \<mapsto> v)"
  by (induction m) (auto simp: fun_eq_iff)

lemma jsmap_set_same: "map_of m k = Some v \<Longrightarrow> jsmap_set k v m = m"
  by (induction m) (auto split: if_splits)

lemma set_jsset_add: "set (jsset_add x xs) = insert x (set xs)"
  by (auto simp: jsset_add_def)

lemma set_jsset_delete: "set (jsset_delete x xs) = set xs - {x}"
  by (auto simp: jsset_delete_def)


lemma jsmap_set_keeps:
  "x \<in> set m \<Longrightarrow> x \<in> set (jsmap_set k v m) \<or> (fst x = k \<and> map_of m k = Some (snd x))"
  by (induction m) (auto split: if_splits)

lemma jsmap_set_mem: "(k, v) \<in> set (jsmap_set k v m)"
  by (induction m) auto

lemma jsmap_set_from:
  "x \<in> set (jsmap_set k v m) \<Longrightarrow> x \<in> set m \<or> x = (k, v)"
  by (induction m) (auto split: if_splits)

lemma jsmap_set_keys:
  "map fst (jsmap_set k v m) = (if k \<in> fst ` set m then map fst m else map fst m @ [k])"
  by (induction m) (auto split: if_splits)

lemma distinct_jsmap_set:
  "distinct (map fst m) \<Longrightarrow> distinct (map fst (jsmap_set k v m))"
  by (simp add: jsmap_set_keys)

lemma layers_addCollider:
  "\<exists>b ls. map_of ls l = Some b \<and> (ls = layers s \<or> (map_of (layers s) l = None \<and> ls = jsmap_set l [] (layers s)))
     \<and> layers (addCollider c l s) = jsmap_set l (jsset_add c b) ls
     \<and> colliders (addCollider c l s) = jsset_add c (colliders s)"
proof (cases "map_of (layers s) l")
  case None
  then show ?thesis
    by (intro exI[of _ "[]"] exI[of _ "jsmap_set l [] (layers s)"])
       (simp add: addCollider_def Let_def map_of_jsmap_set)
next
  case (Some b)
  then show ?thesis
    by (intro exI[of _ b] exI[of _ "layers s"]) (simp add: addCollider_def Let_def)
qed

lemma in_bucket_addCollider:
  "in_bucket c' (addCollider c l s) = (c' = c \<or> in_bucket c' s)"
proof -
  obtain b ls where h: "map_of ls l = Some b"
    "ls = layers s \<or> (map_of (layers s) l = None \<and> ls = jsmap_set l [] (layers s))"
    "layers (addCollider c l s) = jsmap_set l (jsset_add c b) ls"
    using layers_addCollider by blast
  have same: "(\<exists>x \<in> set ls. c' \<in> set (snd x)) = in_bucket c' s"
    using h(2) by (auto simp: in_bucket_def dest: jsmap_set_from jsmap_set_keeps)
  have bl: "(l, b) \<in> set ls" using h(1) by (rule map_of_SomeD)
  show ?thesis
  proof
    assume "in_bucket c' (addCollider c l s)"
    then obtain x where x: "x \<in> set (jsmap_set l (jsset_add c b) ls)" "c' \<in> set (snd x)"
      by (auto simp: in_bucket_def h(3))
    from jsmap_set_from[OF x(1)] show "c' = c \<or> in_bucket c' s"
    proof
      assume "x \<in> set ls" with x(2) same show ?thesis by blast
    next
      assume "x = (l, jsset_add c b)"
      with x(2) have "c' = c \<or> c' \<in> set b" by (auto simp: set_jsset_add)
      with bl same show ?thesis by force
    qed
  next
    assume a: "c' = c \<or> in_bucket c' s"
    show "in_bucket c' (addCollider c l s)"
    proof (cases "c' = c")
      case True
      have "(l, jsset_add c b) \<in> set (jsmap_set l (jsset_add c b) ls)" by (rule jsmap_set_mem)
      then show ?thesis unfolding in_bucket_def h(3) True
        by (force simp: set_jsset_add)
    next
      case False
      with a same obtain x where x: "x \<in> set ls" "c' \<in> set (snd x)" by blast
      from jsmap_set_keeps[OF x(1), of l "jsset_add c b"]
      show ?thesis
      proof
        assume "x \<in> set (jsmap_set l (jsset_add c b) ls)"
        with x(2) show ?thesis unfolding in_bucket_def h(3) by blast
      next
        assume "fst x = l \<and> map_of ls l = Some (snd x)"
        with h(1) x(2) have "c' \<in> set b" by simp
        moreover have "(l, jsset_add c b) \<in> set (jsmap_set l (jsset_add c b) ls)" by (rule jsmap_set_mem)
        ultimately show ?thesis unfolding in_bucket_def h(3) by (force simp: set_jsset_add)
      qed
    qed
  qed
qed

lemma in_flat_addCollider: "in_flat c' (addCollider c l s) = (c' = c \<or> in_flat c' s)"
  using layers_addCollider[of l s c] by (auto simp: in_flat_def set_jsset_add)

lemma distinct_layers_addCollider:
  "distinct (map fst (layers s)) \<Longrightarrow> distinct (map fst (layers (addCollider c l s)))"
  using layers_addCollider[of l s c] by (auto simp: distinct_jsmap_set)


lemma removeCollider_cases:
  "(map_of (layers s) l = None \<and> removeCollider c l s = Threw TypeError s) \<or>
   (\<exists>b. map_of (layers s) l = Some b \<and>
        removeCollider c l s =
          Ok (s\<lparr> layers := jsmap_set l (jsset_delete c b) (layers s),
                 colliders := jsset_delete c (colliders s) \<rparr>))"
  by (cases "map_of (layers s) l") (auto simp: removeCollider_def)

lemma flat_in_bucket_init: "flat_in_bucket init"
  by (simp add: flat_in_bucket_def in_flat_def init_def)

lemma flat_in_bucket_add: "flat_in_bucket s \<Longrightarrow> flat_in_bucket (addCollider c l s)"
  by (auto simp: flat_in_bucket_def in_bucket_addCollider in_flat_addCollider)

lemma flat_in_bucket_remove:
  assumes "flat_in_bucket s"
  shows "flat_in_bucket (state_of (removeCollider c l s))"
  using removeCollider_cases[of s l c]
proof (elim disjE conjE exE)
  assume "removeCollider c l s = Threw TypeError s"
  with assms show ?thesis by simp
next
  fix b
  assume b: "map_of (layers s) l = Some b"
    and r: "removeCollider c l s =
          Ok (s\<lparr> layers := jsmap_set l (jsset_delete c b) (layers s),
                 colliders := jsset_delete c (colliders s) \<rparr>)"
  show ?thesis
    unfolding flat_in_bucket_def
  proof (intro allI impI)
    fix c'
    assume "in_flat c' (state_of (removeCollider c l s))"
    then have ne: "c' \<noteq> c" and fl: "in_flat c' s"
      by (auto simp: r in_flat_def set_jsset_delete)
    from fl assms obtain x where x: "x \<in> set (layers s)" "c' \<in> set (snd x)"
      by (auto simp: flat_in_bucket_def in_bucket_def)
    from jsmap_set_keeps[OF x(1), of l "jsset_delete c b"]
    show "in_bucket c' (state_of (removeCollider c l s))"
    proof
      assume "x \<in> set (jsmap_set l (jsset_delete c b) (layers s))"
      with x(2) show ?thesis by (auto simp: r in_bucket_def)
    next
      assume "fst x = l \<and> map_of (layers s) l = Some (snd x)"
      with b x(2) ne have "c' \<in> set (jsset_delete c b)" by (simp add: set_jsset_delete)
      moreover have "(l, jsset_delete c b) \<in> set (jsmap_set l (jsset_delete c b) (layers s))"
        by (rule jsmap_set_mem)
      ultimately show ?thesis by (force simp: r in_bucket_def)
    qed
  qed
qed

lemma flat_in_bucket_ops: "flat_in_bucket s \<Longrightarrow> flat_in_bucket (apply_ops ops s)"
proof (induction ops arbitrary: s)
  case Nil
  then show ?case by simp
next
  case (Cons x ops)
  then show ?case
    by (cases x) (simp_all add: flat_in_bucket_add flat_in_bucket_remove)
qed

lemma bucket_in_flat_init: "bucket_in_flat init"
  by (simp add: bucket_in_flat_def in_bucket_def init_def)

lemma bucket_in_flat_add: "bucket_in_flat s \<Longrightarrow> bucket_in_flat (addCollider c l s)"
  by (auto simp: bucket_in_flat_def in_bucket_addCollider in_flat_addCollider
        distinct_layers_addCollider)

lemma distinct_keys_unique:
  "distinct (map fst m) \<Longrightarrow> (k, v) \<in> set m \<Longrightarrow> (k, v') \<in> set m \<Longrightarrow> v = v'"
  by (induction m) (auto simp: image_iff)

lemma bucket_in_flat_remove:
  assumes inv: "bucket_in_flat s"
    and one: "list_all (\<lambda>b. c \<in> set (snd b) \<longrightarrow> fst b = l) (layers s)"
  shows "bucket_in_flat (state_of (removeCollider c l s))"
  using removeCollider_cases[of s l c]
proof (elim disjE conjE exE)
  assume "removeCollider c l s = Threw TypeError s"
  with inv show ?thesis by simp
next
  fix b
  assume b: "map_of (layers s) l = Some b"
    and r: "removeCollider c l s =
          Ok (s\<lparr> layers := jsmap_set l (jsset_delete c b) (layers s),
                 colliders := jsset_delete c (colliders s) \<rparr>)"
  let ?m = "jsmap_set l (jsset_delete c b) (layers s)"
  have dist: "distinct (map fst ?m)"
    using inv by (simp add: bucket_in_flat_def distinct_jsmap_set)
  have new: "(l, jsset_delete c b) \<in> set ?m" by (rule jsmap_set_mem)
  have old: "(l, b) \<in> set (layers s)" using b by (rule map_of_SomeD)
  have "in_flat c' (state_of (removeCollider c l s))"
    if "in_bucket c' (state_of (removeCollider c l s))" for c'
  proof -
    from that obtain x where x: "x \<in> set ?m" "c' \<in> set (snd x)"
      by (auto simp: r in_bucket_def)
    have ne: "c' \<noteq> c"
    proof
      assume eq: "c' = c"
      from jsmap_set_from[OF x(1)] show False
      proof
        assume xs: "x \<in> set (layers s)"
        with one x(2) eq have "fst x = l" by (auto simp: list_all_iff)
        then have "(l, snd x) \<in> set ?m" using x(1) by (cases x) simp
        with dist new have "snd x = jsset_delete c b"
          using distinct_keys_unique by fastforce
        with x(2) eq show False by (simp add: set_jsset_delete)
      next
        assume "x = (l, jsset_delete c b)"
        with x(2) eq show False by (simp add: set_jsset_delete)
      qed
    qed
    have "in_bucket c' s"
      using jsmap_set_from[OF x(1)]
    proof
      assume "x \<in> set (layers s)" with x(2) show ?thesis by (auto simp: in_bucket_def)
    next
      assume "x = (l, jsset_delete c b)"
      with x(2) have "c' \<in> set b" by (simp add: set_jsset_delete)
      with old show ?thesis by (force simp: in_bucket_def)
    qed
    with inv have "in_flat c' s" by (simp add: bucket_in_flat_def)
    with ne show ?thesis by (simp add: r in_flat_def set_jsset_delete)
  qed
  with dist show ?thesis by (simp add: bucket_in_flat_def r)
qed

lemma bucket_in_flat_ops:
  "bucket_in_flat s \<Longrightarrow> one_layer_removes ops s \<Longrightarrow> bucket_in_flat (apply_ops ops s)"
proof (induction ops arbitrary: s)
  case Nil
  then show ?case by simp
next
  case (Cons x ops)
  then show ?case
    by (cases x) (simp_all add: bucket_in_flat_add bucket_in_flat_remove)
qed

section \<open>Claims about the registry\<close>

text \<open>
  Claim C4, as amended. After every sequence of \<open>addCollider\<close> and \<open>removeCollider\<close>
  calls on a fresh system, a collider in the flat set is in at least one layer bucket.
  The converse holds for the sequences in which each \<open>removeCollider(c, l)\<close> finds \<open>c\<close>
  in no bucket other than that of \<open>l\<close>: \<open>removeCollider\<close> takes the collider out of the
  flat set whatever other buckets still hold it.
\<close>

theorem registry_flat_bucket:
  "(in_flat c (apply_ops ops init) \<longrightarrow> in_bucket c (apply_ops ops init)) \<and>
   (one_layer_removes ops init \<longrightarrow>
      in_bucket c (apply_ops ops init) \<longrightarrow> in_flat c (apply_ops ops init))"
  using flat_in_bucket_ops[OF flat_in_bucket_init, of ops]
    bucket_in_flat_ops[OF bucket_in_flat_init, of ops]
  by (simp add: flat_in_bucket_def bucket_in_flat_def)

theorem registry_flat_bucket_witness:
  "one_layer_removes [Add 0 ''a'', Remove 0 ''a'', Add 0 ''b''] init \<and>
   in_flat 0 (apply_ops [Add 0 ''a'', Remove 0 ''a'', Add 0 ''b''] init) \<and>
   in_bucket 0 (apply_ops [Add 0 ''a'', Remove 0 ''a'', Add 0 ''b''] init)"
  using registry_flat_bucket[of 0 "[Add 0 ''a'', Remove 0 ''a'', Add 0 ''b'']"]
  by (simp add: init_def addCollider_def removeCollider_def jsset_add_def jsset_delete_def
        in_flat_def in_bucket_def)

text \<open>
  Claim C4 as stated fails: a collider added on layers \<open>a\<close> and \<open>b\<close> and removed from \<open>a\<close>
  is still in the bucket of \<open>b\<close> and no longer in the flat set.
\<close>

theorem registry_iff_counterexample:
  "in_bucket 0 (apply_ops [Add 0 ''a'', Add 0 ''b'', Remove 0 ''a''] init) \<and>
   \<not> in_flat 0 (apply_ops [Add 0 ''a'', Add 0 ''b'', Remove 0 ''a''] init)"
  by (simp add: init_def addCollider_def removeCollider_def jsset_add_def jsset_delete_def
        in_flat_def in_bucket_def)

text \<open>
  Claim C5 says that \<open>removeCollider\<close> is a no-op that does not crash when the entry is
  absent. On a system where the layer has no bucket the call throws a \<open>TypeError\<close>; and
  with collider \<open>0\<close> registered on layer \<open>a\<close> only, \<open>removeCollider(0, b)\<close> on the existing
  bucket \<open>b\<close> takes \<open>0\<close> out of the flat set.
\<close>

theorem removeCollider_absent_entry:
  "removeCollider c l init = Threw TypeError init \<and>
   colliders (apply_ops [Add 0 ''a'', Add 1 ''b''] init) = [0, 1] \<and>
   removeCollider 0 ''b'' (apply_ops [Add 0 ''a'', Add 1 ''b''] init) =
     Ok ((apply_ops [Add 0 ''a'', Add 1 ''b''] init)\<lparr> colliders := [1] \<rparr>)"
  by (simp add: init_def addCollider_def removeCollider_def jsset_add_def jsset_delete_def)

section \<open>Lemmas about the collision graph\<close>

lemma hasCollided_jsmap_set:
  "hasCollided a b (jsmap_set k v m) = (if a = k then b \<in> set v else hasCollided a b m)"
  by (simp add: hasCollided_def map_of_jsmap_set)

lemma jsmap_set_twice: "jsmap_set k v (jsmap_set k v' m) = jsmap_set k v m"
  by (induction m) auto

lemma collisions_addCollision:
  "collisions (addCollision w c1 c2 s) =
     (if ignoreDuplicates (data (w c1)) \<and> hasCollided c2 c1 (collisions s) then collisions s
      else jsmap_set c1 (jsset_add c2 (cols_of (collisions s) c1)) (collisions s))"
  by (simp add: addCollision_def cols_of_def jsmap_set_twice split: option.splits)

lemma addCollision_frame:
  "addCollision w c1 c2 s = s\<lparr> collisions := collisions (addCollision w c1 c2 s) \<rparr>"
  by (simp add: addCollision_def split: option.splits)

lemma lookup_cols: "(b \<in> set (cols_of g a)) = hasCollided a b g"
  by (simp add: hasCollided_def cols_of_def split: option.splits)

lemma hasCollided_addCollision:
  "hasCollided a b (collisions (addCollision w c1 c2 s)) =
     (hasCollided a b (collisions s) \<or>
      (a = c1 \<and> b = c2 \<and> \<not> (ignoreDuplicates (data (w c1)) \<and> hasCollided c2 c1 (collisions s))))"
  by (auto simp: collisions_addCollision hasCollided_jsmap_set set_jsset_add lookup_cols)

lemma addCollision_present:
  "hasCollided c1 c2 (collisions s) \<Longrightarrow> addCollision w c1 c2 s = s"
  by (auto simp: addCollision_def hasCollided_def jsset_add_def jsmap_set_same split: option.splits)

lemma map_of_addCollision_other:
  "a \<noteq> c1 \<Longrightarrow> map_of (collisions (addCollision w c1 c2 s)) a = map_of (collisions s) a"
  by (simp add: collisions_addCollision map_of_jsmap_set)

lemma distinct_jsset_add: "distinct xs \<Longrightarrow> distinct (jsset_add x xs)"
  by (simp add: jsset_add_def)

lemma graph_ok_jsmap_set:
  "graph_ok g \<Longrightarrow> distinct v \<Longrightarrow> graph_ok (jsmap_set k v g)"
  unfolding graph_ok_def
proof (induction g)
  case Nil
  then show ?case by simp
next
  case (Cons p g)
  then show ?case by (cases p) (auto simp: jsmap_set_keys split: if_splits)
qed

lemma graph_ok_lookup: "graph_ok g \<Longrightarrow> distinct (cols_of g k)"
  by (auto simp: graph_ok_def cols_of_def list_all_iff dest!: map_of_SomeD split: option.splits)

lemma graph_ok_addCollision:
  "graph_ok (collisions s) \<Longrightarrow> graph_ok (collisions (addCollision w c1 c2 s))"
  by (simp add: collisions_addCollision graph_ok_jsmap_set distinct_jsset_add graph_ok_lookup)

section \<open>The build loops as a run over the candidate pairs\<close>

lemma addAnyCollisions_unfold:
  "addAnyCollisions w c1 c2 s =
     (if inactive w c1 c2 \<or> not_playing w c1 c2 \<or> not_visible w c1 c2 then Ok s
      else case system_method (methName (w c1) (w c2)) of
             None \<Rightarrow> Threw (InvalidShapes (shape (data (w c1))) (shape (data (w c2)))) s
           | Some test \<Rightarrow> if test (w c1) (w c2) then Ok (addCollision w c1 c2 s) else Ok s)"
  unfolding addAnyCollisions_def inactive_def not_playing_def not_visible_def Let_def
  by (cases "system_method (methName (w c1) (w c2))") auto

lemma addAnyCollisions_Threw:
  "addAnyCollisions w c1 c2 s = Threw e s' \<Longrightarrow> s' = s"
  by (auto simp: addAnyCollisions_unfold split: if_splits option.splits)

lemma addAnyCollisions_Ok:
  "addAnyCollisions w c1 c2 s = Ok s' \<Longrightarrow> s' = s \<or> s' = addCollision w c1 c2 s"
  by (auto simp: addAnyCollisions_unfold split: if_splits option.splits)

lemma state_of_addAnyCollisions:
  "state_of (addAnyCollisions w c1 c2 s) = s \<or>
   state_of (addAnyCollisions w c1 c2 s) = addCollision w c1 c2 s"
  by (cases "addAnyCollisions w c1 c2 s")
     (auto dest: addAnyCollisions_Ok addAnyCollisions_Threw)

lemma bind_cong_Ok: "(\<And>s'. r = Ok s' \<Longrightarrow> f s' = g s') \<Longrightarrow> bind r f = bind r g"
  by (cases r) auto

lemma state_of_bind:
  "state_of (bind r f) = (case r of Ok s' \<Rightarrow> state_of (f s') | Threw e s' \<Rightarrow> s')"
  by (cases r) auto

lemma bind_assoc: "bind (bind r f) g = bind r (\<lambda>s. bind (f s) g)"
  by (cases r) auto

lemma bind_Ok_iff: "bind r f = Ok s' \<longleftrightarrow> (\<exists>s1. r = Ok s1 \<and> f s1 = Ok s')"
  by (cases r) auto

lemma add_pairs_append: "add_pairs w (xs @ ys) s = bind (add_pairs w xs s) (add_pairs w ys)"
  by (induction xs arbitrary: s) (auto simp: bind_assoc intro: bind_cong_Ok)

lemma add_pairs_invariant:
  assumes "P s"
    and "\<And>s p. P s \<Longrightarrow> p \<in> set ps \<Longrightarrow> P (addCollision w (fst p) (snd p) s)"
  shows "P (state_of (add_pairs w ps s))"
  using assms
proof (induction ps arbitrary: s)
  case Nil
  then show ?case by simp
next
  case (Cons p ps)
  have step: "P (state_of (addAnyCollisions w (fst p) (snd p) s))"
    using state_of_addAnyCollisions[of w "fst p" "snd p" s] Cons.prems by auto
  show ?case
  proof (cases "addAnyCollisions w (fst p) (snd p) s")
    case (Ok s1)
    with step have "P s1" by simp
    then have "P (state_of (add_pairs w ps s1))"
      by (rule Cons.IH) (simp add: Cons.prems(2))
    with Ok show ?thesis by simp
  next
    case (Threw e s1)
    with step show ?thesis by simp
  qed
qed

lemma add_pairs_frame:
  "state_of (add_pairs w ps s) = s\<lparr> collisions := collisions (state_of (add_pairs w ps s)) \<rparr>"
proof -
  have "\<exists>g. state_of (add_pairs w ps s) = s\<lparr> collisions := g \<rparr>"
  proof (rule add_pairs_invariant)
    show "\<exists>g. s = s\<lparr> collisions := g \<rparr>" by (rule exI[of _ "collisions s"]) simp
  next
    fix s' :: system and p
    assume "\<exists>g. s' = s\<lparr> collisions := g \<rparr>"
    then obtain g where g: "s' = s\<lparr> collisions := g \<rparr>" ..
    have "addCollision w (fst p) (snd p) s' =
            s'\<lparr> collisions := collisions (addCollision w (fst p) (snd p) s') \<rparr>"
      by (rule addCollision_frame)
    then show "\<exists>g. addCollision w (fst p) (snd p) s' = s\<lparr> collisions := g \<rparr>"
      unfolding g by (intro exI[of _ "collisions (addCollision w (fst p) (snd p) (s\<lparr>collisions := g\<rparr>))"]) simp
  qed
  then obtain g where "state_of (add_pairs w ps s) = s\<lparr> collisions := g \<rparr>" ..
  then show ?thesis by simp
qed

lemma add_pairs_layers: "add_pairs w ps s = Ok s' \<Longrightarrow> layers s' = layers s"
proof -
  assume a: "add_pairs w ps s = Ok s'"
  have "layers (state_of (add_pairs w ps s)) =
        layers (s\<lparr> collisions := collisions (state_of (add_pairs w ps s)) \<rparr>)"
    using add_pairs_frame[of w ps s] by simp
  then show ?thesis by (simp add: a)
qed

lemma tick_bucket_add_pairs: "tick_bucket w c1 b s = add_pairs w (bucket_pairs c1 b) s"
  by (induction b arbitrary: s) (auto simp: bucket_pairs_def intro: bind_cong_Ok)

lemma tick_layers_add_pairs:
  "tick_layers w c1 ns s = add_pairs w (layer_pairs (layers s) c1 ns) s"
proof (induction ns arbitrary: s)
  case Nil
  then show ?case by (simp add: layer_pairs_def)
next
  case (Cons l ns)
  show ?case
  proof (cases "map_of (layers s) l")
    case None
    then show ?thesis using Cons.IH[of s] by (simp add: layer_pairs_def)
  next
    case (Some b)
    have "bind (add_pairs w (bucket_pairs c1 b) s) (tick_layers w c1 ns) =
          bind (add_pairs w (bucket_pairs c1 b) s) (add_pairs w (layer_pairs (layers s) c1 ns))"
      by (rule bind_cong_Ok) (simp add: Cons.IH add_pairs_layers)
    with Some show ?thesis
      by (simp add: layer_pairs_def tick_bucket_add_pairs add_pairs_append)
  qed
qed

lemma tick_layers_turn:
  "tick_layers w c (collidesWith (data (w c))) s = add_pairs w (turn_pairs w (layers s) c) s"
  by (simp add: tick_layers_add_pairs turn_pairs_def)

lemma tick_colliders_add_pairs:
  "tick_colliders w cs s = add_pairs w (concat (map (turn_pairs w (layers s)) cs)) s"
proof (induction cs arbitrary: s)
  case Nil
  then show ?case by simp
next
  case (Cons c cs)
  have "bind (add_pairs w (turn_pairs w (layers s) c) s) (tick_colliders w cs) =
        bind (add_pairs w (turn_pairs w (layers s) c) s)
          (add_pairs w (concat (map (turn_pairs w (layers s)) cs)))"
    by (rule bind_cong_Ok) (simp add: Cons.IH add_pairs_layers)
  then show ?case
    by (simp add: tick_layers_turn add_pairs_append)
qed

lemma build_add_pairs: "build w s = add_pairs w (candidates w s) s"
  by (simp add: build_def candidates_def tick_colliders_add_pairs)

section \<open>What the build phase records\<close>

lemma state_of_addAnyCollisions_passes:
  "state_of (addAnyCollisions w c1 c2 s) = (if passes w c1 c2 then addCollision w c1 c2 s else s)"
  by (auto simp: addAnyCollisions_unfold passes_def split: option.splits)

lemma add_pairs_passes_invariant:
  assumes "P s"
    and "\<And>s p. P s \<Longrightarrow> p \<in> set ps \<Longrightarrow> passes w (fst p) (snd p) \<Longrightarrow>
            P (addCollision w (fst p) (snd p) s)"
  shows "P (state_of (add_pairs w ps s))"
  using assms
proof (induction ps arbitrary: s)
  case Nil
  then show ?case by simp
next
  case (Cons p ps)
  have step: "P (state_of (addAnyCollisions w (fst p) (snd p) s))"
    using Cons.prems by (simp add: state_of_addAnyCollisions_passes)
  show ?case
  proof (cases "addAnyCollisions w (fst p) (snd p) s")
    case (Ok s1)
    with step have "P s1" by simp
    then have "P (state_of (add_pairs w ps s1))"
      by (rule Cons.IH) (simp add: Cons.prems(2))
    with Ok show ?thesis by simp
  next
    case (Threw e s1)
    with step show ?thesis by simp
  qed
qed

lemma add_pairs_graph_ok:
  "graph_ok (collisions s) \<Longrightarrow> graph_ok (collisions (state_of (add_pairs w ps s)))"
  by (rule add_pairs_invariant) (simp_all add: graph_ok_addCollision)

lemma add_pairs_sound:
  "hasCollided a b (collisions (state_of (add_pairs w ps s))) \<Longrightarrow>
     hasCollided a b (collisions s) \<or> ((a, b) \<in> set ps \<and> passes w a b)"
proof -
  let ?P = "\<lambda>s'. \<forall>a b. hasCollided a b (collisions s') \<longrightarrow>
              hasCollided a b (collisions s) \<or> ((a, b) \<in> set ps \<and> passes w a b)"
  have "?P (state_of (add_pairs w ps s))"
  proof (rule add_pairs_passes_invariant)
    show "?P s" by simp
  next
    fix s' :: system and p
    assume "?P s'" "p \<in> set ps" "passes w (fst p) (snd p)"
    then show "?P (addCollision w (fst p) (snd p) s')"
      by (cases p) (auto simp: hasCollided_addCollision)
  qed
  then show "hasCollided a b (collisions (state_of (add_pairs w ps s))) \<Longrightarrow> ?thesis" by blast
qed

lemma add_pairs_mono:
  "hasCollided a b (collisions s) \<Longrightarrow> hasCollided a b (collisions (state_of (add_pairs w ps s)))"
  by (rule add_pairs_invariant) (simp_all add: hasCollided_addCollision)

lemma add_pairs_other_key:
  "a \<notin> fst ` set ps \<Longrightarrow>
     hasCollided a b (collisions (state_of (add_pairs w ps s))) = hasCollided a b (collisions s)"
proof -
  assume a: "a \<notin> fst ` set ps"
  have "\<forall>b. hasCollided a b (collisions (state_of (add_pairs w ps s))) = hasCollided a b (collisions s)"
  proof (rule add_pairs_invariant)
    show "\<forall>b. hasCollided a b (collisions s) = hasCollided a b (collisions s)" by simp
  next
    fix s' :: system and p
    assume "\<forall>b. hasCollided a b (collisions s') = hasCollided a b (collisions s)" "p \<in> set ps"
    with a show "\<forall>b. hasCollided a b (collisions (addCollision w (fst p) (snd p) s')) =
                     hasCollided a b (collisions s)"
      by (auto simp: hasCollided_addCollision)
  qed
  then show ?thesis by blast
qed

text \<open>During the turn of a collider that suppresses duplicates, a reverse edge that is
  already in the graph keeps the forward edge out.\<close>

lemma add_pairs_suppressed:
  assumes dup: "ignoreDuplicates (data (w A))"
    and rev: "hasCollided B A (collisions s)"
    and no: "\<not> hasCollided A B (collisions s)"
    and turn: "\<forall>p \<in> set ps. fst p = A"
  shows "\<not> hasCollided A B (collisions (state_of (add_pairs w ps s)))"
proof -
  let ?P = "\<lambda>s'. hasCollided B A (collisions s') \<and> \<not> hasCollided A B (collisions s')"
  have "?P (state_of (add_pairs w ps s))"
  proof (rule add_pairs_invariant)
    show "?P s" using rev no by simp
  next
    fix s' :: system and p
    assume "?P s'" "p \<in> set ps"
    with dup turn show "?P (addCollision w (fst p) (snd p) s')"
      by (auto simp: hasCollided_addCollision)
  qed
  then show ?thesis by simp
qed

section \<open>The start and end passes\<close>

lemma emitEvent_Ok:
  "emitEvent w n a b s = Ok s' \<Longrightarrow>
     \<exists>e. s' = s\<lparr> emitted := emitted s @ [e] \<rparr> \<and> call_of e = (n, a, b)"
  by (auto simp: emitEvent_def Let_def call_of_def split: option.splits)

lemma emitEvent_Threw: "emitEvent w n a b s = Threw e s' \<Longrightarrow> s' = s"
  by (auto simp: emitEvent_def Let_def split: option.splits)

lemma start_cols_Ok:
  assumes "\<forall>c2 \<in> set cols. hasCollided c1 c2 (collisions s)"
    and "start_cols w c1 cols s = Ok s'"
  shows "\<exists>evs. s' = s\<lparr> emitted := emitted s @ evs \<rparr> \<and>
           map call_of evs =
             map (\<lambda>c2. (''collisionstart'', c1, c2))
               (filter (\<lambda>c2. \<not> hasCollided c1 c2 (prevCollisions s)) cols)"
  using assms
proof (induction cols arbitrary: s)
  case Nil
  then show ?case by simp
next
  case (Cons c2 cols)
  show ?case
  proof (cases "hasCollided c1 c2 (prevCollisions s)")
    case True
    with Cons.prems have "start_cols w c1 cols s = Ok s'" by simp
    with Cons.IH[of s] Cons.prems(1) True show ?thesis by simp
  next
    case False
    have same: "addCollision w c1 c2 s = s"
      using Cons.prems(1) by (simp add: addCollision_present)
    with False Cons.prems(2)
    obtain s1 where s1: "emitEvent w ''collisionstart'' c1 c2 s = Ok s1"
      and rest: "start_cols w c1 cols s1 = Ok s'"
      by (auto simp: bind_Ok_iff)
    from emitEvent_Ok[OF s1] obtain e where e: "s1 = s\<lparr> emitted := emitted s @ [e] \<rparr>"
      "call_of e = (''collisionstart'', c1, c2)" by blast
    have "\<forall>c2 \<in> set cols. hasCollided c1 c2 (collisions s1)"
      using Cons.prems(1) by (simp add: e(1))
    from Cons.IH[OF this rest] obtain evs where evs: "s' = s1\<lparr> emitted := emitted s1 @ evs \<rparr>"
      "map call_of evs = map (\<lambda>c2. (''collisionstart'', c1, c2))
               (filter (\<lambda>c2. \<not> hasCollided c1 c2 (prevCollisions s1)) cols)" by blast
    show ?thesis
      by (rule exI[of _ "e # evs"]) (use False e evs in simp)
  qed
qed

lemma edges_Cons: "edges (p # g) = map (Pair (fst p)) (snd p) @ edges g"
  by (simp add: edges_def)

lemma start_pass_Ok:
  assumes "\<forall>p \<in> set (edges g). hasCollided (fst p) (snd p) (collisions s)"
    and "start_pass w g s = Ok s'"
  shows "\<exists>evs. s' = s\<lparr> emitted := emitted s @ evs \<rparr> \<and>
           map call_of evs =
             map (\<lambda>p. (''collisionstart'', fst p, snd p)) (start_edges g (prevCollisions s))"
  using assms
proof (induction g arbitrary: s)
  case Nil
  then show ?case by (simp add: start_edges_def edges_def)
next
  case (Cons p g)
  obtain c1 cols where p: "p = (c1, cols)" by (cases p)
  from Cons.prems(2) obtain s1 where s1: "start_cols w c1 cols s = Ok s1"
    and rest: "start_pass w g s1 = Ok s'"
    by (auto simp: p bind_Ok_iff)
  have "\<forall>c2 \<in> set cols. hasCollided c1 c2 (collisions s)"
    using Cons.prems(1) by (force simp: p edges_Cons)
  from start_cols_Ok[OF this s1] obtain evs1 where evs1:
    "s1 = s\<lparr> emitted := emitted s @ evs1 \<rparr>"
    "map call_of evs1 = map (\<lambda>c2. (''collisionstart'', c1, c2))
               (filter (\<lambda>c2. \<not> hasCollided c1 c2 (prevCollisions s)) cols)" by blast
  have "\<forall>p \<in> set (edges g). hasCollided (fst p) (snd p) (collisions s1)"
    using Cons.prems(1) by (simp add: evs1(1) edges_Cons)
  from Cons.IH[OF this rest] obtain evs2 where evs2:
    "s' = s1\<lparr> emitted := emitted s1 @ evs2 \<rparr>"
    "map call_of evs2 =
       map (\<lambda>p. (''collisionstart'', fst p, snd p)) (start_edges g (prevCollisions s1))" by blast
  show ?case
    by (rule exI[of _ "evs1 @ evs2"])
       (use evs1 evs2 in \<open>simp add: p start_edges_def edges_Cons filter_map comp_def\<close>)
qed

lemma end_cols_Ok:
  assumes "end_cols w c1 cols s = Ok s'"
  shows "\<exists>evs. s' = s\<lparr> emitted := emitted s @ evs \<rparr> \<and>
           map call_of evs =
             map (\<lambda>c2. (''collisionend'', c1, c2))
               (filter (\<lambda>c2. \<not> hasCollided c1 c2 (collisions s)) cols)"
  using assms
proof (induction cols arbitrary: s)
  case Nil
  then show ?case by simp
next
  case (Cons c2 cols)
  show ?case
  proof (cases "hasCollided c1 c2 (collisions s)")
    case True
    with Cons.prems have "end_cols w c1 cols s = Ok s'" by simp
    with Cons.IH[of s] True show ?thesis by simp
  next
    case False
    with Cons.prems
    obtain s1 where s1: "emitEvent w ''collisionend'' c1 c2 s = Ok s1"
      and rest: "end_cols w c1 cols s1 = Ok s'"
      by (auto simp: bind_Ok_iff)
    from emitEvent_Ok[OF s1] obtain e where e: "s1 = s\<lparr> emitted := emitted s @ [e] \<rparr>"
      "call_of e = (''collisionend'', c1, c2)" by blast
    from Cons.IH[OF rest] obtain evs where evs: "s' = s1\<lparr> emitted := emitted s1 @ evs \<rparr>"
      "map call_of evs = map (\<lambda>c2. (''collisionend'', c1, c2))
               (filter (\<lambda>c2. \<not> hasCollided c1 c2 (collisions s1)) cols)" by blast
    show ?thesis
      by (rule exI[of _ "e # evs"]) (use False e evs in simp)
  qed
qed

lemma end_pass_Ok:
  assumes "end_pass w g s = Ok s'"
  shows "\<exists>evs. s' = s\<lparr> emitted := emitted s @ evs \<rparr> \<and>
           map call_of evs =
             map (\<lambda>p. (''collisionend'', fst p, snd p)) (end_edges g (collisions s))"
  using assms
proof (induction g arbitrary: s)
  case Nil
  then show ?case by (simp add: end_edges_def edges_def)
next
  case (Cons p g)
  obtain c1 cols where p: "p = (c1, cols)" by (cases p)
  from Cons.prems obtain s1 where s1: "end_cols w c1 cols s = Ok s1"
    and rest: "end_pass w g s1 = Ok s'"
    by (auto simp: p bind_Ok_iff)
  from end_cols_Ok[OF s1] obtain evs1 where evs1:
    "s1 = s\<lparr> emitted := emitted s @ evs1 \<rparr>"
    "map call_of evs1 = map (\<lambda>c2. (''collisionend'', c1, c2))
               (filter (\<lambda>c2. \<not> hasCollided c1 c2 (collisions s)) cols)" by blast
  from Cons.IH[OF rest] obtain evs2 where evs2:
    "s' = s1\<lparr> emitted := emitted s1 @ evs2 \<rparr>"
    "map call_of evs2 =
       map (\<lambda>p. (''collisionend'', fst p, snd p)) (end_edges g (collisions s1))" by blast
  show ?case
    by (rule exI[of _ "evs1 @ evs2"])
       (use evs1 evs2 in \<open>simp add: p end_edges_def edges_Cons filter_map comp_def\<close>)
qed

section \<open>Edges, counting and the result of a tick\<close>

lemma hasCollided_in_edges: "hasCollided a b g \<Longrightarrow> (a, b) \<in> set (edges g)"
  by (induction g) (auto simp: hasCollided_def edges_Cons edges_def split: if_splits option.splits)

lemma in_edges_key: "(a, b) \<in> set (edges g) \<Longrightarrow> a \<in> fst ` set g"
  by (induction g) (auto simp: edges_Cons edges_def)

lemma in_edges_hasCollided:
  "distinct (map fst g) \<Longrightarrow> (a, b) \<in> set (edges g) \<Longrightarrow> hasCollided a b g"
proof (induction g)
  case Nil
  then show ?case by (simp add: edges_def)
next
  case (Cons p g)
  show ?case
  proof (cases "a = fst p")
    case True
    with Cons.prems have "(a, b) \<notin> set (edges g)"
      by (auto dest: in_edges_key)
    with Cons.prems(2) True show ?thesis
      by (cases p) (auto simp: edges_Cons hasCollided_def)
  next
    case False
    with Cons show ?thesis by (cases p) (auto simp: edges_Cons hasCollided_def)
  qed
qed

lemma edges_iff: "graph_ok g \<Longrightarrow> ((a, b) \<in> set (edges g)) = hasCollided a b g"
  by (auto simp: graph_ok_def intro: hasCollided_in_edges in_edges_hasCollided)

lemma distinct_edges: "graph_ok g \<Longrightarrow> distinct (edges g)"
proof (induction g)
  case Nil
  then show ?case by (simp add: edges_def)
next
  case (Cons p g)
  then have "graph_ok g" "distinct (snd p)" "fst p \<notin> fst ` set g"
    by (auto simp: graph_ok_def)
  with Cons.IH show ?case
    by (auto simp: edges_Cons distinct_map inj_on_def dest: in_edges_key)
qed

lemma count_distinct: "distinct xs \<Longrightarrow> length (filter (\<lambda>y. y = x) xs) = (if x \<in> set xs then 1 else 0)"
  by (induction xs) auto

lemma count_events_call:
  "count_events n a b evs = length (filter (\<lambda>c. c = (n, a, b)) (map call_of evs))"
  by (simp add: count_events_def call_of_def filter_map comp_def)

lemma count_events_append:
  "count_events n a b (xs @ ys) = count_events n a b xs + count_events n a b ys"
  by (simp add: count_events_def)

lemma count_calls_named:
  "length (filter (\<lambda>c. c = (n, a, b)) (map (\<lambda>p. (m, fst p, snd p)) ps)) =
     (if n = m then length (filter (\<lambda>p. p = (a, b)) ps) else 0)"
  by (induction ps) auto

lemma count_start_edges:
  "graph_ok cur \<Longrightarrow>
     length (filter (\<lambda>p. p = (a, b)) (start_edges cur prev)) =
       (if hasCollided a b cur \<and> \<not> hasCollided a b prev then 1 else 0)"
  using count_distinct[of "start_edges cur prev" "(a, b)"]
  by (auto simp: start_edges_def distinct_edges edges_iff)

lemma count_end_edges:
  "graph_ok prev \<Longrightarrow>
     length (filter (\<lambda>p. p = (a, b)) (end_edges prev cur)) =
       (if hasCollided a b prev \<and> \<not> hasCollided a b cur then 1 else 0)"
  using count_distinct[of "end_edges prev cur" "(a, b)"]
  by (auto simp: end_edges_def distinct_edges edges_iff)

lemma graph_ok_Nil: "graph_ok []"
  by (simp add: graph_ok_def)

lemma build_frame:
  "state_of (build w s) = s\<lparr> collisions := collisions (state_of (build w s)) \<rparr>"
  unfolding build_add_pairs by (rule add_pairs_frame)

lemma build_graph_ok: "graph_ok (collisions (state_of (build w (swap_buffers s))))"
  unfolding build_add_pairs
  by (rule add_pairs_graph_ok) (simp add: swap_buffers_def graph_ok_Nil)

lemma tick_Ok:
  assumes "tick w s = Ok s'"
  shows "\<exists>s1 evs1 evs2.
           build w (swap_buffers s) = Ok s1 \<and>
           s' = s\<lparr> collisions := collisions s1, prevCollisions := collisions s,
                   newCollisions := [], emitted := emitted s @ evs1 @ evs2 \<rparr> \<and>
           map call_of evs1 =
             map (\<lambda>p. (''collisionstart'', fst p, snd p)) (start_edges (collisions s1) (collisions s)) \<and>
           map call_of evs2 =
             map (\<lambda>p. (''collisionend'', fst p, snd p)) (end_edges (collisions s) (collisions s1))"
proof -
  from assms obtain s1 s3 where b: "build w (swap_buffers s) = Ok s1"
    and st: "start_pass w (collisions s1) (s1\<lparr> newCollisions := [] \<rparr>) = Ok s3"
    and en: "end_pass w (prevCollisions s3) s3 = Ok s'"
    by (auto simp: tick_def Let_def bind_Ok_iff)
  have fr: "s1 = (swap_buffers s)\<lparr> collisions := collisions s1 \<rparr>"
    using build_frame[of w "swap_buffers s"] by (simp add: b)
  have ok: "graph_ok (collisions s1)"
    using build_graph_ok[of w s] by (simp add: b)
  have "\<forall>p \<in> set (edges (collisions s1)).
          hasCollided (fst p) (snd p) (collisions (s1\<lparr> newCollisions := [] \<rparr>))"
    using ok by (auto simp: edges_iff[symmetric])
  from start_pass_Ok[OF this st] obtain evs1 where evs1:
    "s3 = s1\<lparr> newCollisions := [], emitted := emitted s1 @ evs1 \<rparr>"
    "map call_of evs1 = map (\<lambda>p. (''collisionstart'', fst p, snd p))
        (start_edges (collisions s1) (prevCollisions s1))" by auto
  from end_pass_Ok[OF en] obtain evs2 where evs2:
    "s' = s3\<lparr> emitted := emitted s3 @ evs2 \<rparr>"
    "map call_of evs2 = map (\<lambda>p. (''collisionend'', fst p, snd p))
        (end_edges (prevCollisions s3) (collisions s3))" by blast
  have p1: "prevCollisions s1 = collisions s" and e1: "emitted s1 = emitted s"
    by (subst fr, simp add: swap_buffers_def)+
  have s'_eq: "s' = s\<lparr> collisions := collisions s1, prevCollisions := collisions s,
                   newCollisions := [], emitted := emitted s @ evs1 @ evs2 \<rparr>"
    unfolding evs2(1) evs1(1) by (subst (1 2 3) fr) (simp add: swap_buffers_def)
  show ?thesis
    apply (rule exI[of _ s1], rule exI[of _ evs1], rule exI[of _ evs2])
    using b s'_eq evs1(2) evs2(2) by (simp add: evs1(1) p1)
qed

section \<open>Events of a completed tick\<close>

lemma tick_events_Ok:
  assumes "tick w s = Ok s'"
  shows "\<exists>evs1 evs2.
           tick_events s s' = evs1 @ evs2 \<and>
           map call_of evs1 =
             map (\<lambda>p. (''collisionstart'', fst p, snd p)) (start_edges (collisions s') (collisions s)) \<and>
           map call_of evs2 =
             map (\<lambda>p. (''collisionend'', fst p, snd p)) (end_edges (collisions s) (collisions s'))"
proof -
  from tick_Ok[OF assms] obtain s1 evs1 evs2 where b: "build w (swap_buffers s) = Ok s1" and h:
    "s' = s\<lparr> collisions := collisions s1, prevCollisions := collisions s,
            newCollisions := [], emitted := emitted s @ evs1 @ evs2 \<rparr>"
    "map call_of evs1 =
       map (\<lambda>p. (''collisionstart'', fst p, snd p)) (start_edges (collisions s1) (collisions s))"
    "map call_of evs2 =
       map (\<lambda>p. (''collisionend'', fst p, snd p)) (end_edges (collisions s) (collisions s1))"
    by blast
  have "tick_events s s' = evs1 @ evs2" "collisions s' = collisions s1"
    by (simp_all add: h(1) tick_events_def)
  with h(2,3) show ?thesis by auto
qed

lemma tick_prev: "tick w s = Ok s' \<Longrightarrow> prevCollisions s' = collisions s"
  by (drule tick_Ok) auto

lemma tick_registry: "tick w s = Ok s' \<Longrightarrow> colliders s' = colliders s \<and> layers s' = layers s"
  by (drule tick_Ok) auto

lemma tick_emitted: "tick w s = Ok s' \<Longrightarrow> emitted s' = emitted s @ tick_events s s'"
  by (drule tick_Ok) (auto simp: tick_events_def)

lemma tick_built:
  "tick w s = Ok s' \<Longrightarrow>
     add_pairs w (candidates w s) (swap_buffers s) = Ok ((swap_buffers s)\<lparr> collisions := collisions s' \<rparr>)"
proof -
  assume "tick w s = Ok s'"
  from tick_Ok[OF this] obtain s1 where b: "build w (swap_buffers s) = Ok s1"
    and c: "collisions s' = collisions s1" by auto
  have "s1 = (swap_buffers s)\<lparr> collisions := collisions s1 \<rparr>"
    using build_frame[of w "swap_buffers s"] by (simp add: b)
  with b c show ?thesis
    by (simp add: build_add_pairs candidates_def swap_buffers_def)
qed

lemma tick_graph_ok: "tick w s = Ok s' \<Longrightarrow> graph_ok (collisions s')"
proof -
  assume "tick w s = Ok s'"
  from tick_Ok[OF this] obtain s1 where b: "build w (swap_buffers s) = Ok s1"
    and c: "collisions s' = collisions s1" by auto
  with build_graph_ok[of w s] show ?thesis by simp
qed

lemma tick_start_count:
  assumes "tick w s = Ok s'"
  shows "count_events ''collisionstart'' a b (tick_events s s') =
           (if hasCollided a b (collisions s') \<and> \<not> hasCollided a b (collisions s) then 1 else 0)"
proof -
  from tick_events_Ok[OF assms] obtain evs1 evs2 where h:
    "tick_events s s' = evs1 @ evs2"
    "map call_of evs1 =
       map (\<lambda>p. (''collisionstart'', fst p, snd p)) (start_edges (collisions s') (collisions s))"
    "map call_of evs2 =
       map (\<lambda>p. (''collisionend'', fst p, snd p)) (end_edges (collisions s) (collisions s'))"
    by blast
  have "count_events ''collisionstart'' a b evs2 = 0"
    unfolding count_events_call h(3) count_calls_named by simp
  moreover have "count_events ''collisionstart'' a b evs1 =
      (if hasCollided a b (collisions s') \<and> \<not> hasCollided a b (collisions s) then 1 else 0)"
    unfolding count_events_call h(2) count_calls_named
    using count_start_edges[OF tick_graph_ok[OF assms]] by simp
  ultimately show ?thesis by (simp add: h(1) count_events_append)
qed

lemma tick_end_count:
  assumes "graph_ok (collisions s)" and "tick w s = Ok s'"
  shows "count_events ''collisionend'' a b (tick_events s s') =
           (if hasCollided a b (collisions s) \<and> \<not> hasCollided a b (collisions s') then 1 else 0)"
proof -
  from tick_events_Ok[OF assms(2)] obtain evs1 evs2 where h:
    "tick_events s s' = evs1 @ evs2"
    "map call_of evs1 =
       map (\<lambda>p. (''collisionstart'', fst p, snd p)) (start_edges (collisions s') (collisions s))"
    "map call_of evs2 =
       map (\<lambda>p. (''collisionend'', fst p, snd p)) (end_edges (collisions s) (collisions s'))"
    by blast
  have "count_events ''collisionend'' a b evs1 = 0"
    unfolding count_events_call h(2) count_calls_named by simp
  moreover have "count_events ''collisionend'' a b evs2 =
      (if hasCollided a b (collisions s) \<and> \<not> hasCollided a b (collisions s') then 1 else 0)"
    unfolding count_events_call h(3) count_calls_named
    using count_end_edges[OF assms(1)] by simp
  ultimately show ?thesis by (simp add: h(1) count_events_append)
qed

lemma count_events_pos:
  "(0 < count_events n a b evs) = (\<exists>e \<in> set evs. call_of e = (n, a, b))"
  by (auto simp: count_events_def call_of_def filter_empty_conv)


lemma collisions_addCollider: "collisions (addCollider c l s) = collisions s"
  by (simp add: addCollider_def Let_def split: option.splits)

lemma collisions_removeCollider: "collisions (state_of (removeCollider c l s)) = collisions s"
  by (simp add: removeCollider_def split: option.splits)

lemma collisions_apply_ops: "collisions (apply_ops ops s) = collisions s"
proof (induction ops arbitrary: s)
  case Nil
  then show ?case by simp
next
  case (Cons x ops)
  then show ?case
    by (cases x) (simp_all add: collisions_addCollider collisions_removeCollider)
qed

lemmas eval_defs = tick_def build_def swap_buffers_def init_def addCollider_def removeCollider_def
  jsset_add_def jsset_delete_def addAnyCollisions_def addCollision_def hasCollided_def
  no_component_def isVisibleInScene_def methName_def system_method_def
  collision_sphere_sphere_def distanceTo_def distanceToSquared_def getScaledRadius_def
  emitEvent_def mk_collider_def sphere_data_def node_def Let_def two_registered_def drift_def

section \<open>Which edges a completed tick records\<close>


lemma candidates_swap: "candidates w (swap_buffers s) = candidates w s"
  by (simp add: candidates_def swap_buffers_def)

lemma layer_pairs_mem:
  "(a, b) \<in> set (layer_pairs ls c ns) \<Longrightarrow>
     a = c \<and> a \<noteq> b \<and> (\<exists>l bucket. map_of ls l = Some bucket \<and> b \<in> set bucket)"
proof (induction ns)
  case Nil
  then show ?case by (simp add: layer_pairs_def)
next
  case (Cons n ns)
  have split: "layer_pairs ls c (n # ns) =
      (case map_of ls n of None \<Rightarrow> [] | Some bucket \<Rightarrow> bucket_pairs c bucket) @ layer_pairs ls c ns"
    by (simp add: layer_pairs_def)
  show ?case
  proof (cases "(a, b) \<in> set (layer_pairs ls c ns)")
    case True
    then show ?thesis by (rule Cons.IH)
  next
    case False
    with Cons.prems split obtain bucket where "map_of ls n = Some bucket"
      "(a, b) \<in> set (bucket_pairs c bucket)"
      by (cases "map_of ls n") auto
    then show ?thesis by (auto simp: bucket_pairs_def)
  qed
qed

lemma candidates_mem:
  "(a, b) \<in> set (candidates w s) \<Longrightarrow> a \<in> set (colliders s) \<and> in_bucket b s \<and> a \<noteq> b"
proof -
  assume "(a, b) \<in> set (candidates w s)"
  then obtain l bucket where a: "a \<in> set (colliders s)" "a \<noteq> b"
    and l: "map_of (layers s) l = Some bucket" "b \<in> set bucket"
    by (auto simp: candidates_def turn_pairs_def dest!: layer_pairs_mem)
  from l(1) have "(l, bucket) \<in> set (layers s)" by (rule map_of_SomeD)
  with l(2) have "in_bucket b s" by (force simp: in_bucket_def)
  with a show ?thesis by simp
qed

lemma hasCollided_Nil: "\<not> hasCollided a b []"
  by (simp add: hasCollided_def)

lemma tick_recorded_sound:
  assumes "tick w s = Ok s'" and "hasCollided a b (collisions s')"
  shows "(a, b) \<in> set (candidates w s) \<and> passes w a b"
proof -
  let ?r = "add_pairs w (candidates w s) (swap_buffers s)"
  have "state_of ?r = (swap_buffers s)\<lparr> collisions := collisions s' \<rparr>"
    using tick_built[OF assms(1)] by simp
  then have "hasCollided a b (collisions (state_of ?r))" using assms(2) by simp
  from add_pairs_sound[OF this] show ?thesis
    by (simp add: swap_buffers_def hasCollided_Nil)
qed


section \<open>The graph after any tick\<close>







lemma graph_ok_apply_ops: "graph_ok (collisions s) \<Longrightarrow> graph_ok (collisions (apply_ops ops s))"
  by (simp add: collisions_apply_ops)

section \<open>Claims about the events of a tick\<close>

lemmas scene_defs = eval_defs dup_world_def one_then_zero_def halted_def graph_ok_def
  tick_events_def count_events_def








text \<open>
  Claim C2, as amended. The check of the start pass is \<open>hasCollided(c1, c2, prevCollisions)\<close>,
  which looks up \<open>c1\<close> and tests for \<open>c2\<close>: it reads the directed edge only. A completed
  tick emits \<open>collisionstart\<close> for \<open>(c1, c2)\<close> exactly when the current graph holds
  \<open>(c1, c2)\<close> and the previous graph does not hold \<open>(c1, c2)\<close>, whether or not the previous
  graph holds \<open>(c2, c1)\<close>.
\<close>

theorem start_check_directed:
  assumes "tick w s = Ok s'"
  shows "(\<exists>e \<in> set (tick_events s s'). call_of e = (''collisionstart'', c1, c2)) =
           (hasCollided c1 c2 (collisions s') \<and> \<not> hasCollided c1 c2 (prevCollisions s'))"
  using tick_start_count[OF assms, of c1 c2] tick_prev[OF assms]
    count_events_pos[of "''collisionstart''" c1 c2 "tick_events s s'"]
  by (auto split: if_splits)

theorem start_check_directed_witness:
  "hasCollided 1 0 (prevCollisions (ticks [dup_world] (apply_ops [Remove 1 ''default'', Add 1 ''default''] (ticks [dup_world] one_then_zero)))) \<and>
   (\<exists>e \<in> set (tick_events (apply_ops [Remove 1 ''default'', Add 1 ''default''] (ticks [dup_world] one_then_zero))
                 (ticks [dup_world] (apply_ops [Remove 1 ''default'', Add 1 ''default''] (ticks [dup_world] one_then_zero)))).
      call_of e = (''collisionstart'', 0, 1))"
proof -
  let ?s = "apply_ops [Remove 1 ''default'', Add 1 ''default''] (ticks [dup_world] one_then_zero)"
  let ?s' = "ticks [dup_world] ?s"
  have t: "tick dup_world ?s = Ok ?s'" by (simp add: scene_defs)
  have h: "hasCollided 0 1 (collisions ?s')" "\<not> hasCollided 0 1 (prevCollisions ?s')"
    "hasCollided 1 0 (prevCollisions ?s')"
    by (simp_all add: scene_defs)
  show ?thesis
    using start_check_directed[OF t, of 0 1] h by simp
qed

text \<open>
  Claim C2 as stated fails. Colliders \<open>0\<close> and \<open>1\<close> both suppress duplicates and overlap
  throughout. With \<open>1\<close> registered first the first tick records \<open>(1, 0)\<close> only; after \<open>1\<close>
  is removed and added again the second tick records \<open>(0, 1)\<close> only, and emits
  \<open>collisionstart\<close> for \<open>(0, 1)\<close> although the previous graph holds \<open>(1, 0)\<close>.
\<close>

theorem start_check_either_direction_counterexample:
  "collisions (ticks [dup_world] one_then_zero) = [(1, [0])] \<and>
   prevCollisions (ticks [dup_world] (apply_ops [Remove 1 ''default'', Add 1 ''default''] (ticks [dup_world] one_then_zero))) = [(1, [0])] \<and>
   collisions (ticks [dup_world] (apply_ops [Remove 1 ''default'', Add 1 ''default''] (ticks [dup_world] one_then_zero))) = [(0, [1])] \<and>
   count_events ''collisionstart'' 0 1
     (tick_events (apply_ops [Remove 1 ''default'', Add 1 ''default''] (ticks [dup_world] one_then_zero))
        (ticks [dup_world] (apply_ops [Remove 1 ''default'', Add 1 ''default''] (ticks [dup_world] one_then_zero)))) = 1"
  by (simp add: scene_defs)

text \<open>
  What the end pass does when the tick runs to completion: an edge of the previous graph
  that is not in the current graph gets \<open>collisionend\<close> exactly once, with no test of
  activity, visibility or registration; and an edge whose colliders are now inactive, not
  playing, hidden while the first one requires visibility, or no longer registered is not
  in the current graph.
\<close>

lemma end_events_completed:
  assumes "graph_ok (collisions s)" and "tick w s = Ok s'"
    and "hasCollided c1 c2 (collisions s)"
  shows "(\<not> hasCollided c1 c2 (collisions s') \<longrightarrow>
            count_events ''collisionend'' c1 c2 (tick_events s s') = 1) \<and>
         (inactive w c1 c2 \<or> not_playing w c1 c2 \<or> not_visible w c1 c2 \<or>
          c1 \<notin> set (colliders s) \<or> \<not> in_bucket c2 s \<longrightarrow>
            \<not> hasCollided c1 c2 (collisions s'))"
  using assms(3) tick_end_count[OF assms(1,2), of c1 c2]
    tick_recorded_sound[OF assms(2), of c1 c2] candidates_mem[of c1 c2 w s]
  by (auto simp: passes_def)

text \<open>
  Claim C10 says that every edge of the previous graph that is absent from the current
  graph gets its \<open>collisionend\<close>, whatever has become of its colliders. After a tick on
  which spheres \<open>0\<close> and \<open>1\<close> overlapped, the behaviour of collider \<open>0\<close> is detached from its
  entity. On the next tick \<open>addAnyCollisions\<close> finds the pair inactive and the edge
  \<open>(0, 1)\<close> is absent from the current graph, but \<open>emitEvent\<close> reads the data of the
  detached behaviour and throws: the tick is aborted with no \<open>collisionend\<close> emitted, and
  the tick after it, which completes, emits none either.
\<close>

theorem end_pass_detached_throws:
  "hasCollided 0 1 (collisions (ticks [drift 1] two_registered)) \<and>
   no_component (el (detached 0)) (attrName (detached 0)) \<and>
   tick detached (ticks [drift 1] two_registered) =
     Threw TypeError (ticks [drift 1, detached] two_registered) \<and>
   hasCollided 0 1 (prevCollisions (ticks [drift 1, detached] two_registered)) \<and>
   collisions (ticks [drift 1, detached] two_registered) = [] \<and>
   count_events ''collisionend'' 0 1
     (tick_events (ticks [drift 1] two_registered)
        (ticks [drift 1, detached] two_registered)) = 0 \<and>
   tick detached (ticks [drift 1, detached] two_registered) =
     Ok (ticks [drift 1, detached, detached] two_registered) \<and>
   count_events ''collisionend'' 0 1
     (tick_events (ticks [drift 1, detached] two_registered)
        (ticks [drift 1, detached, detached] two_registered)) = 0"
  by (simp add: scene_defs detached_def)

section \<open>Claim about the shape tests\<close>

text \<open>
  Claim C9. The box/sphere test is the sphere/box test with the arguments swapped, and
  these are the two tests that the dispatch by name finds for a box and a sphere in the
  two orders.
\<close>

theorem box_sphere_swaps:
  "collision_box_sphere b s = collision_sphere_box s b \<and>
   (shape (data b) = ''box'' \<and> shape (data s) = ''sphere'' \<longrightarrow>
      system_method (methName b s) = Some collision_box_sphere \<and>
      system_method (methName s b) = Some collision_sphere_box)"
  by (simp add: collision_box_sphere_def methName_def system_method_def)

theorem box_sphere_swaps_witness:
  "system_method (methName (mk_collider 0 box_data (node True 0)) (mk_collider 1 sphere_data (node True (3/2))))
     = Some collision_box_sphere \<and>
   system_method (methName (mk_collider 1 sphere_data (node True (3/2))) (mk_collider 0 box_data (node True 0)))
     = Some collision_sphere_box \<and>
   collision_box_sphere (mk_collider 0 box_data (node True 0)) (mk_collider 1 sphere_data (node True (3/2))) \<and>
   collision_sphere_box (mk_collider 1 sphere_data (node True (3/2))) (mk_collider 0 box_data (node True 0))"
proof -
  let ?b = "mk_collider 0 box_data (node True 0)"
  let ?s = "mk_collider 1 sphere_data (node True (3/2))"
  have sh: "shape (data ?b) = ''box''" "shape (data ?s) = ''sphere''"
    by (simp_all add: scene_defs box_data_def)
  have t: "collision_sphere_box ?s ?b"
    by (simp add: scene_defs box_data_def collision_sphere_box_def intersectsSphere_def
        clampPoint_def setFromCenterAndSize_def getScaledDimensions_def power2_eq_square)
  show ?thesis
    using box_sphere_swaps[of ?b ?s] sh t by simp
qed

section \<open>Claims about recording a pair\<close>

text \<open>
  Claim C3, as amended. \<open>addAnyCollisions\<close> reads the \<open>collideNonVisible\<close> flag of the first
  collider only. If the first collider requires visibility and either owning entity is
  not visible in the scene (the node or one of its ancestors is hidden), the evaluation of
  the pair returns with the state as it was; a tick that runs to completion does not hold
  the edge \<open>(c1, c2)\<close> in its graph and emits no \<open>collisionstart\<close> for it.
\<close>

theorem visibility_skip:
  assumes "\<not> collideNonVisible (data (w c1))"
    and "\<not> isVisibleInScene (el (w c1)) \<or> \<not> isVisibleInScene (el (w c2))"
  shows "addAnyCollisions w c1 c2 s0 = Ok s0 \<and>
         (tick w s = Ok s' \<longrightarrow>
            \<not> hasCollided c1 c2 (collisions s') \<and>
            count_events ''collisionstart'' c1 c2 (tick_events s s') = 0)"
proof -
  have nv: "not_visible w c1 c2" using assms by (auto simp: not_visible_def)
  then have skip: "addAnyCollisions w c1 c2 s0 = Ok s0"
    by (simp add: addAnyCollisions_unfold)
  have "\<not> hasCollided c1 c2 (collisions s') \<and>
        count_events ''collisionstart'' c1 c2 (tick_events s s') = 0"
    if t: "tick w s = Ok s'"
  proof -
    have "\<not> hasCollided c1 c2 (collisions s')"
      using tick_recorded_sound[OF t, of c1 c2] nv by (auto simp: passes_def)
    then show ?thesis using tick_start_count[OF t, of c1 c2] by simp
  qed
  with skip show ?thesis by blast
qed

theorem visibility_skip_witness:
  "visible (object3D (el (hide_one 1))) \<and> \<not> isVisibleInScene (el (hide_one 1)) \<and>
   addAnyCollisions hide_one 0 1 two_registered = Ok two_registered \<and>
   \<not> hasCollided 0 1 (collisions (ticks [hide_one] two_registered)) \<and>
   count_events ''collisionstart'' 0 1
     (tick_events two_registered (ticks [hide_one] two_registered)) = 0"
proof -
  have a: "\<not> collideNonVisible (data (hide_one 0))" by (simp add: scene_defs hide_one_def)
  have v: "visible (object3D (el (hide_one 1)))" "\<not> isVisibleInScene (el (hide_one 1))"
    by (simp_all add: scene_defs hide_one_def under_hidden_def)
  then have b: "\<not> isVisibleInScene (el (hide_one 0)) \<or> \<not> isVisibleInScene (el (hide_one 1))"
    by simp
  have t: "tick hide_one two_registered = Ok (ticks [hide_one] two_registered)"
    by (simp add: scene_defs hide_one_def under_hidden_def)
  from visibility_skip[OF a b, where ?s0.0 = two_registered and s = two_registered
      and s' = "ticks [hide_one] two_registered"] t
  have "addAnyCollisions hide_one 0 1 two_registered = Ok two_registered"
    "\<not> hasCollided 0 1 (collisions (ticks [hide_one] two_registered))"
    "count_events ''collisionstart'' 0 1
       (tick_events two_registered (ticks [hide_one] two_registered)) = 0"
    by blast+
  with v show ?thesis by blast
qed

text \<open>
  Claim C3 as stated fails in two ways. In \<open>see_through\<close> collider \<open>1\<close> requires visibility
  and its entity is hidden, but collider \<open>0\<close> does not require it: the pair \<open>(0, 1)\<close> is
  recorded and gets its \<open>collisionstart\<close>. And in \<open>hide_one\<close> after a tick on which the two
  spheres overlapped, the pair \<open>(0, 1)\<close> is skipped by the visibility test and still gets
  an event on that tick, its \<open>collisionend\<close>.
\<close>

theorem visibility_either_counterexample:
  "\<not> collideNonVisible (data (see_through 1)) \<and> \<not> isVisibleInScene (el (see_through 1)) \<and>
   hasCollided 0 1 (collisions (ticks [see_through] two_registered)) \<and>
   count_events ''collisionstart'' 0 1
     (tick_events two_registered (ticks [see_through] two_registered)) = 1 \<and>
   not_visible hide_one 0 1 \<and>
   count_events ''collisionend'' 0 1
     (tick_events (ticks [drift 1] two_registered) (ticks [drift 1, hide_one] two_registered)) = 1"
  by (simp add: scene_defs see_through_def hide_one_def under_hidden_def not_visible_def)

text \<open>
  Claim C8. A pair that gets past the activity, playing and visibility tests and whose
  method name is not a property of the system makes \<open>addAnyCollisions\<close> throw, with the
  state as it was. Nothing catches the error: when the pair is reached after the pairs
  \<open>pre\<close> have been evaluated, \<open>tick\<close> throws the same error, the graph is the one built
  from \<open>pre\<close>, the pairs after it are not evaluated and no event is emitted. A pair that
  fails one of the three tests returns without an error, whatever its shapes are.
\<close>

theorem invalid_shape_aborts:
  assumes "\<not> inactive w c1 c2" and "\<not> not_playing w c1 c2" and "\<not> not_visible w c1 c2"
    and "system_method (methName (w c1) (w c2)) = None"
    and "candidates w s = pre @ (c1, c2) # post"
    and "add_pairs w pre (swap_buffers s) = Ok sm"
  shows "addAnyCollisions w c1 c2 sm =
           Threw (InvalidShapes (shape (data (w c1))) (shape (data (w c2)))) sm \<and>
         tick w s = Threw (InvalidShapes (shape (data (w c1))) (shape (data (w c2)))) sm \<and>
         emitted sm = emitted s \<and>
         (inactive w0 a b \<or> not_playing w0 a b \<or> not_visible w0 a b \<longrightarrow>
            addAnyCollisions w0 a b s0 = Ok s0)"
proof -
  let ?e = "InvalidShapes (shape (data (w c1))) (shape (data (w c2)))"
  have thr: "addAnyCollisions w c1 c2 sm = Threw ?e sm"
    using assms(1-4) by (simp add: addAnyCollisions_unfold)
  have "build w (swap_buffers s) = Threw ?e sm"
    unfolding build_add_pairs candidates_swap assms(5) add_pairs_append
    by (simp add: assms(6) thr)
  then have tk: "tick w s = Threw ?e sm" by (simp add: tick_def)
  have "state_of (add_pairs w pre (swap_buffers s)) =
          (swap_buffers s)\<lparr> collisions := collisions (state_of (add_pairs w pre (swap_buffers s))) \<rparr>"
    by (rule add_pairs_frame)
  then have "sm = (swap_buffers s)\<lparr> collisions := collisions sm \<rparr>" by (simp add: assms(6))
  then have "emitted sm = emitted ((swap_buffers s)\<lparr> collisions := collisions sm \<rparr>)" by simp
  then have em: "emitted sm = emitted s" by (simp add: swap_buffers_def)
  have "addAnyCollisions w0 a b s0 = Ok s0"
    if "inactive w0 a b \<or> not_playing w0 a b \<or> not_visible w0 a b"
    using that by (simp add: addAnyCollisions_unfold)
  with thr tk em show ?thesis by blast
qed

theorem invalid_shape_aborts_witness:
  "candidates odd_shape two_registered = [(0, 1), (1, 0)] \<and>
   tick odd_shape two_registered = Threw (InvalidShapes ''sphere'' ''cylinder'') two_registered \<and>
   inactive halted 0 1 \<and>
   addAnyCollisions halted 0 1 two_registered = Ok two_registered"
proof -
  have c: "candidates odd_shape two_registered = [] @ (0, 1) # [(1, 0)]"
    by (simp add: scene_defs odd_shape_def candidates_def turn_pairs_def layer_pairs_def
        bucket_pairs_def)
  have p: "add_pairs odd_shape [] (swap_buffers two_registered) = Ok two_registered"
    by (simp add: scene_defs)
  have n: "\<not> inactive odd_shape 0 1" "\<not> not_playing odd_shape 0 1" "\<not> not_visible odd_shape 0 1"
    "system_method (methName (odd_shape 0) (odd_shape 1)) = None"
    by (simp_all add: scene_defs odd_shape_def inactive_def not_playing_def not_visible_def)
  have sh: "shape (data (odd_shape 0)) = ''sphere''" "shape (data (odd_shape 1)) = ''cylinder''"
    by (simp_all add: scene_defs odd_shape_def)
  have i: "inactive halted 0 1" by (simp add: scene_defs inactive_def)
  from invalid_shape_aborts[OF n c p, where ?w0.0 = halted and a = 0 and b = 1
      and ?s0.0 = two_registered] i
  have "tick odd_shape two_registered =
          Threw (InvalidShapes (shape (data (odd_shape 0))) (shape (data (odd_shape 1)))) two_registered"
    "addAnyCollisions halted 0 1 two_registered = Ok two_registered"
    by blast+
  with c sh i show ?thesis by simp
qed

section \<open>Claim about duplicate suppression\<close>

lemma turn_pairs_fst: "p \<in> set (turn_pairs w ls c) \<Longrightarrow> fst p = c"
  using layer_pairs_mem[of "fst p" "snd p" ls c "collidesWith (data (w c))"]
  by (simp add: turn_pairs_def)

lemma turns_fst: "fst ` set (concat (map (turn_pairs w ls) cs)) \<subseteq> set cs"
  by (auto dest: turn_pairs_fst)

text \<open>
  The turn-wise form: the graph holds \<open>(B, A)\<close> when the loop over the flat set reaches
  \<open>A\<close>, after the colliders \<open>xs\<close> have had their turn.
\<close>

lemma suppressed_from_turn:
  assumes dup: "ignoreDuplicates (data (w A))"
    and ord: "colliders s = xs @ A # zs" and dist: "distinct (colliders s)"
    and turn: "tick_colliders w xs (swap_buffers s) = Ok sm"
    and rev: "hasCollided B A (collisions sm)"
    and tk: "tick w s = Ok s'"
  shows "addCollision w A B sm = sm \<and>
         hasCollided B A (collisions s') \<and> \<not> hasCollided A B (collisions s') \<and>
         count_events ''collisionstart'' A B (tick_events s s') = 0 \<and>
         (\<forall>w2 s2. tick w2 s' = Ok s2 \<longrightarrow>
            count_events ''collisionend'' A B (tick_events s' s2) = 0)"
proof -
  let ?s0 = "swap_buffers s"
  let ?T = "turn_pairs w (layers ?s0)"
  let ?px = "concat (map ?T xs)" and ?pz = "concat (map ?T zs)"
  have A_xs: "A \<notin> set xs" and A_zs: "A \<notin> set zs"
    using ord dist by auto
  have cand: "candidates w s = ?px @ ?T A @ ?pz"
    by (simp add: candidates_def ord swap_buffers_def)
  have sm: "add_pairs w ?px ?s0 = Ok sm"
    using turn by (simp add: tick_colliders_add_pairs)
  from tick_built[OF tk] obtain sf where
    sf: "add_pairs w (candidates w s) ?s0 = Ok sf" and csf: "collisions sf = collisions s'"
    by simp
  from sf obtain sa where sa: "add_pairs w (?T A) sm = Ok sa"
    and fin: "add_pairs w ?pz sa = Ok sf"
    unfolding cand add_pairs_append by (auto simp: sm bind_Ok_iff)
  have no_sm: "\<not> hasCollided A B (collisions sm)"
  proof -
    have "A \<notin> fst ` set ?px" using turns_fst[of w "layers ?s0" xs] A_xs by blast
    from add_pairs_other_key[OF this, of B w ?s0]
    have "hasCollided A B (collisions sm) = hasCollided A B (collisions ?s0)"
      by (simp add: sm)
    then show ?thesis by (simp add: swap_buffers_def hasCollided_Nil)
  qed
  have same: "addCollision w A B sm = sm"
    using dup rev by (simp add: addCollision_def)
  have no_sa: "\<not> hasCollided A B (collisions sa)"
    using add_pairs_suppressed[where w = w and A = A and ps = "?T A", OF dup rev no_sm]
      turn_pairs_fst[of _ w "layers ?s0" A]
    by (simp add: sa)
  have no_sf: "\<not> hasCollided A B (collisions sf)"
  proof -
    have "A \<notin> fst ` set ?pz" using turns_fst[of w "layers ?s0" zs] A_zs by blast
    from add_pairs_other_key[OF this, of B w sa] no_sa
    show ?thesis by (simp add: fin)
  qed
  have rev_sf: "hasCollided B A (collisions sf)"
  proof -
    have "hasCollided B A (collisions (state_of (add_pairs w (?T A) sm)))"
      using rev by (rule add_pairs_mono)
    then have "hasCollided B A (collisions sa)" by (simp add: sa)
    then have "hasCollided B A (collisions (state_of (add_pairs w ?pz sa)))"
      by (rule add_pairs_mono)
    then show ?thesis by (simp add: fin)
  qed
  have no': "\<not> hasCollided A B (collisions s')" and rev': "hasCollided B A (collisions s')"
    using no_sf rev_sf csf by simp_all
  have st: "count_events ''collisionstart'' A B (tick_events s s') = 0"
    using tick_start_count[OF tk, of A B] no' by simp
  have en: "count_events ''collisionend'' A B (tick_events s' s2) = 0"
    if "tick w2 s' = Ok s2" for w2 s2
    using tick_end_count[OF tick_graph_ok[OF tk] that, of A B] no' by simp
  from same rev' no' st en show ?thesis by blast
qed

lemma concat_split:
  "concat xss = pre @ x # post \<Longrightarrow>
     \<exists>xss1 ys zs xss2. xss = xss1 @ (ys @ x # zs) # xss2 \<and> pre = concat xss1 @ ys"
proof (induction xss arbitrary: pre)
  case Nil
  then show ?case by simp
next
  case (Cons xs xss)
  from Cons.prems have "xs @ concat xss = pre @ x # post" by simp
  then obtain us where
    "(xs = pre @ us \<and> us @ concat xss = x # post) \<or> (xs @ us = pre \<and> concat xss = us @ x # post)"
    by (auto simp: append_eq_append_conv2)
  then consider (inside) zs where "xs = pre @ x # zs"
    | (later) us where "pre = xs @ us" "concat xss = us @ x # post"
  proof (elim disjE conjE)
    assume a: "xs = pre @ us" "us @ concat xss = x # post"
    show ?thesis
    proof (cases us)
      case Nil
      with a have "pre = xs @ []" "concat xss = [] @ x # post" by simp_all
      then show ?thesis by (rule that(2))
    next
      case (Cons y zs)
      with a have "xs = pre @ x # zs" by simp
      then show ?thesis by (rule that(1))
    qed
  next
    assume "xs @ us = pre" "concat xss = us @ x # post"
    then have "pre = xs @ us" "concat xss = us @ x # post" by simp_all
    then show ?thesis by (rule that(2))
  qed
  then show ?case
  proof cases
    case inside
    show ?thesis
      by (rule exI[of _ "[]"], rule exI[of _ pre], rule exI[of _ zs], rule exI[of _ xss])
         (simp add: inside)
  next
    case later
    from Cons.IH[OF later(2)] obtain xss1 ys zs xss2 where
      "xss = xss1 @ (ys @ x # zs) # xss2" "us = concat xss1 @ ys" by blast
    then show ?thesis
      by (intro exI[of _ "xs # xss1"] exI[of _ ys] exI[of _ zs] exI[of _ xss2])
         (simp add: later(1))
  qed
qed

lemma candidates_split:
  assumes "candidates w s = pre @ (A, B) # post"
  shows "\<exists>xs zs ys. colliders s = xs @ A # zs \<and>
           pre = concat (map (turn_pairs w (layers s)) xs) @ ys \<and>
           set ys \<subseteq> set (turn_pairs w (layers s) A) \<and> A \<noteq> B"
proof -
  let ?T = "turn_pairs w (layers s)"
  from assms have "concat (map ?T (colliders s)) = pre @ (A, B) # post"
    by (simp add: candidates_def)
  from concat_split[OF this] obtain xss1 ys zs xss2 where
    m: "map ?T (colliders s) = xss1 @ (ys @ (A, B) # zs) # xss2" and p: "pre = concat xss1 @ ys"
    by blast
  from m obtain xs c cs where c: "colliders s = xs @ c # cs" "map ?T xs = xss1"
    "?T c = ys @ (A, B) # zs"
    by (auto simp: map_eq_append_conv map_eq_Cons_conv)
  have "(A, B) \<in> set (?T c)" by (simp add: c(3))
  then have "c = A" "A \<noteq> B"
    using layer_pairs_mem[of A B "layers s" c "collidesWith (data (w c))"]
    by (simp_all add: turn_pairs_def)
  with c p show ?thesis
    by (intro exI[of _ xs] exI[of _ cs] exI[of _ ys]) auto
qed

lemma distinct_jsset_delete: "distinct xs \<Longrightarrow> distinct (jsset_delete x xs)"
  by (simp add: jsset_delete_def distinct_removeAll)

lemma distinct_colliders_ops:
  "distinct (colliders s) \<Longrightarrow> distinct (colliders (apply_ops ops s))"
proof (induction ops arbitrary: s)
  case Nil
  then show ?case by simp
next
  case (Cons x ops)
  have "distinct (colliders (apply_op x s))"
  proof (cases x)
    case (Add c l)
    with Cons.prems layers_addCollider[of l s c] show ?thesis
      by (auto simp: distinct_jsset_add)
  next
    case (Remove c l)
    with Cons.prems removeCollider_cases[of s l c] show ?thesis
      by (auto simp: distinct_jsset_delete)
  qed
  then show ?case by (simp add: Cons.IH)
qed

text \<open>
  Claim C7, as amended. Let collider \<open>A\<close> suppress duplicates and let the graph being built
  hold \<open>(B, A)\<close> when the candidate pair \<open>(A, B)\<close> is evaluated, after the pairs \<open>pre\<close> that
  the loops reach before it. Then \<open>addCollision(A, B)\<close> leaves the graph as it is, the
  graph of the completed tick holds \<open>(B, A)\<close> and not \<open>(A, B)\<close>, the tick emits no
  \<open>collisionstart\<close> for \<open>(A, B)\<close>, and the next tick emits no \<open>collisionend\<close> for
  \<open>(A, B)\<close>. This holds for every registry, in whatever order it iterates, that satisfies
  the premise; the flat set, being a \<open>Set\<close>, holds no collider twice. Nothing is said of
  how many events the two directions get together over several ticks.
\<close>

theorem duplicate_suppressed:
  assumes dup: "ignoreDuplicates (data (w A))"
    and dist: "distinct (colliders s)"
    and cand: "candidates w s = pre @ (A, B) # post"
    and reached: "add_pairs w pre (swap_buffers s) = Ok sm"
    and rev: "hasCollided B A (collisions sm)"
    and tk: "tick w s = Ok s'"
  shows "addCollision w A B sm = sm \<and>
         hasCollided B A (collisions s') \<and> \<not> hasCollided A B (collisions s') \<and>
         count_events ''collisionstart'' A B (tick_events s s') = 0 \<and>
         (\<forall>w2 s2. tick w2 s' = Ok s2 \<longrightarrow>
            count_events ''collisionend'' A B (tick_events s' s2) = 0)"
proof -
  let ?s0 = "swap_buffers s"
  let ?T = "turn_pairs w (layers ?s0)"
  from candidates_split[OF cand] obtain xs zs ys where
    ord: "colliders s = xs @ A # zs"
    and pre: "pre = concat (map ?T xs) @ ys"
    and ys: "set ys \<subseteq> set (?T A)" and ne: "A \<noteq> B"
    by (auto simp: swap_buffers_def)
  from reached obtain sx where sx: "add_pairs w (concat (map ?T xs)) ?s0 = Ok sx"
    and sm: "add_pairs w ys sx = Ok sm"
    unfolding pre add_pairs_append by (auto simp: bind_Ok_iff)
  have "B \<notin> fst ` set ys"
    using ys ne turn_pairs_fst[of _ w "layers ?s0" A] by auto
  from add_pairs_other_key[OF this, of A w sx] rev
  have rev_sx: "hasCollided B A (collisions sx)" by (simp add: sm)
  have turn: "tick_colliders w xs ?s0 = Ok sx"
    by (simp add: tick_colliders_add_pairs sx)
  have same: "addCollision w A B sm = sm"
    using dup rev by (simp add: addCollision_def)
  from suppressed_from_turn[where w = w and A = A, OF dup ord dist turn rev_sx tk] same
  show ?thesis by blast
qed

theorem duplicate_suppressed_witness:
  "candidates dup_world one_then_zero = [(1, 0)] @ (0, 1) # [] \<and>
   hasCollided 1 0
     (collisions (state_of (add_pairs dup_world [(1, 0)] (swap_buffers one_then_zero)))) \<and>
   collisions (ticks [dup_world] one_then_zero) = [(1, [0])] \<and>
   count_events ''collisionstart'' 0 1
     (tick_events one_then_zero (ticks [dup_world] one_then_zero)) = 0 \<and>
   count_events ''collisionstart'' 1 0
     (tick_events one_then_zero (ticks [dup_world] one_then_zero)) = 1 \<and>
   count_events ''collisionend'' 0 1
     (tick_events (ticks [dup_world] one_then_zero)
        (ticks [dup_world, drift 3] one_then_zero)) = 0"
proof -
  let ?s1 = "ticks [dup_world] one_then_zero"
  let ?sm = "state_of (add_pairs dup_world [(1, 0)] (swap_buffers one_then_zero))"
  have d: "ignoreDuplicates (data (dup_world 0))" by (simp add: scene_defs)
  have o: "distinct (colliders one_then_zero)" by (simp add: scene_defs)
  have c: "candidates dup_world one_then_zero = [(1, 0)] @ (0, 1) # []"
    by (simp add: scene_defs candidates_def turn_pairs_def layer_pairs_def bucket_pairs_def)
  have b: "add_pairs dup_world [(1, 0)] (swap_buffers one_then_zero) = Ok ?sm"
    by (simp add: scene_defs)
  have r: "hasCollided 1 0 (collisions ?sm)" by (simp add: scene_defs)
  have t: "tick dup_world one_then_zero = Ok ?s1" by (simp add: scene_defs)
  have t2: "tick (drift 3) ?s1 = Ok (ticks [dup_world, drift 3] one_then_zero)"
    by (simp add: scene_defs)
  have g: "collisions ?s1 = [(1, [0])]" by (simp add: scene_defs)
  have n: "count_events ''collisionstart'' 1 0 (tick_events one_then_zero ?s1) = 1"
    by (simp add: scene_defs)
  from duplicate_suppressed[where w = dup_world and A = 0, OF d o c b r t] t2
  have "count_events ''collisionstart'' 0 1 (tick_events one_then_zero ?s1) = 0"
    "count_events ''collisionend'' 0 1
       (tick_events ?s1 (ticks [dup_world, drift 3] one_then_zero)) = 0"
    by blast+
  with c r g n show ?thesis by blast
qed

text \<open>
  Claim C7 as stated fails in its second half. In \<open>dup_world\<close> nothing moves and both
  colliders suppress duplicates. With \<open>1\<close> registered first the first tick records
  \<open>(1, 0)\<close> and emits its \<open>collisionstart\<close>. Collider \<open>1\<close> is then removed and added again.
  On the second tick the premise holds for \<open>A = 1\<close> and \<open>B = 0\<close>: \<open>(0, 1)\<close> is already
  recorded when \<open>(1, 0)\<close> is evaluated. That tick emits \<open>collisionend\<close> for \<open>(1, 0)\<close> and a
  second \<open>collisionstart\<close> of the relationship, for \<open>(0, 1)\<close>, while the two overlap
  throughout.
\<close>

theorem duplicate_pair_counterexample:
  "ignoreDuplicates (data (dup_world 1)) \<and>
   passes dup_world 0 1 \<and> passes dup_world 1 0 \<and>
   candidates dup_world
     (apply_ops [Remove 1 ''default'', Add 1 ''default''] (ticks [dup_world] one_then_zero)) =
     [(0, 1)] @ (1, 0) # [] \<and>
   hasCollided 0 1
     (collisions (state_of (add_pairs dup_world [(0, 1)]
        (swap_buffers
          (apply_ops [Remove 1 ''default'', Add 1 ''default''] (ticks [dup_world] one_then_zero)))))) \<and>
   count_events ''collisionstart'' 1 0
     (emitted (ticks [dup_world] one_then_zero)) = 1 \<and>
   count_events ''collisionstart'' 0 1
     (tick_events
        (apply_ops [Remove 1 ''default'', Add 1 ''default''] (ticks [dup_world] one_then_zero))
        (ticks [dup_world]
          (apply_ops [Remove 1 ''default'', Add 1 ''default''] (ticks [dup_world] one_then_zero)))) = 1 \<and>
   count_events ''collisionend'' 1 0
     (tick_events
        (apply_ops [Remove 1 ''default'', Add 1 ''default''] (ticks [dup_world] one_then_zero))
        (ticks [dup_world]
          (apply_ops [Remove 1 ''default'', Add 1 ''default''] (ticks [dup_world] one_then_zero)))) = 1"
  by (simp add: scene_defs passes_def inactive_def not_playing_def not_visible_def
      candidates_def turn_pairs_def layer_pairs_def bucket_pairs_def)

end
